theory Spec2Isabelle
  imports Complex_Main "HOL-Library.AList" "HOL-Library.Multiset"
begin

section \<open>The messaging layer of abce: \<^verbatim>\<open>abce/messenger.py\<close>\<close>

text \<open>
  The class \<^verbatim>\<open>Messenger\<close> is a mixin: it is combined with the trade, contract and
  inventory classes of the framework into one agent object, and its clearing routine reads
  and writes the fields of all of them. The embedding keeps that structure. The fields that
  \<^verbatim>\<open>Messenger.__init__\<close> creates (\<^verbatim>\<open>_msgs\<close>, \<^verbatim>\<open>inbox\<close>, \<^verbatim>\<open>_out\<close>)
  and the identity fields are fields of the record \<open>agent\<close>; the fields of the other mixins
  are collected in the record \<open>market\<close>. Every method takes the agent and returns the agent
  it leaves behind. A Python exception is the value \<open>Inl (e, a)\<close>: the error and the agent as
  it is at the moment of the raise; a normal return is \<open>Inr\<close>. Output to the terminal
  (\<^verbatim>\<open>print\<close>, \<^verbatim>\<open>pprint\<close>) is not part of the state and is left out.
\<close>

subsection \<open>Python values\<close>

text \<open>
  Message contents, goods and identifiers are arbitrary hashable Python values. Strings,
  numbers and tuples of them are enough for everything the module does with a value: compare
  it, use it as a dictionary key, index it, add it. Python compares \<^verbatim>\<open>1 == 1.0\<close> as
  equal and hashes them alike, so one constructor stands for both kinds of number.
\<close>

datatype pyval = Str string | Num real | Tup "pyval list"

text \<open>
  The amounts that the inventory and the contracts hold are number objects, and what
  \<^verbatim>\<open>+\<close> and \<^verbatim>\<open>*\<close> compute depends on their kind: on two \<^verbatim>\<open>int\<close> the result is
  exact, with a \<^verbatim>\<open>float\<close> it is rounded to a double, it overflows to an infinity, and it
  can be not-a-number. A number object is therefore its kind and the number it denotes.
\<close>

datatype number = IntN int | FloatN real | PosInf | NegInf | NaN

datatype fatal = OffersMadeNotRetrieved | OffersNotRetrieved | MessagesNotRetrieved

text \<open>
  \<open>Fatal k g i\<close> is the \<^verbatim>\<open>Exception\<close> of the auditor, whose text starts with the group
  \<open>g\<close> and the number \<open>i\<close> of the agent (\<^verbatim>\<open>'%s_%i: ...' % (self.group, self.id)\<close>).
\<close>

datatype error = KeyError | AttributeError | TypeError | IndexError | ZeroDivisionError
  | Fatal fatal string int

type_synonym identity = "string \<times> int"

text \<open>The class \<^verbatim>\<open>Message\<close> (lines 28-42).\<close>

record Message =
  sender :: identity
  receiver :: identity
  topic :: string
  content :: pyval

text \<open>
  Modelled from the spec: the classes of offers, quotes and contracts are declared in
  modules of the framework that are not part of the source (spec 3 names them: offer,
  quote, contract ``carrying lists of rounds in which payment/delivery occurred''). Each is
  a record of the attributes that the messenger reads, with the types that its use of them
  needs: \<^verbatim>\<open>pay_group\<close> and \<^verbatim>\<open>pay_id\<close> are compared with the group and the number of
  the agent, \<^verbatim>\<open>quantity\<close> and \<^verbatim>\<open>price\<close> are numbers, \<^verbatim>\<open>made\<close> is a round,
  \<^verbatim>\<open>delivered\<close> and \<^verbatim>\<open>paid\<close> are lists of rounds. What else an object carries
  is kept, uninterpreted, in its last field.
\<close>

record offer =
  o_good :: pyval
  o_id :: pyval
  o_made :: int
  o_rest :: pyval

record quote =
  q_id :: pyval
  q_rest :: pyval

record contract =
  c_good :: pyval
  c_id :: pyval
  c_pay_group :: string
  c_pay_id :: int
  c_quantity :: number
  c_price :: number
  c_delivered :: "int list"
  c_paid :: "int list"
  c_rest :: pyval

text \<open>
  The second component of an inbox entry is any Python object: an offer, a quote or a
  contract sent by the trade and contract classes, a bare tuple (\<^verbatim>\<open>('r', good, id)\<close>),
  or the \<^verbatim>\<open>Message\<close> that \<^verbatim>\<open>send\<close> builds.
\<close>

datatype payload = Offer offer | Quote quote | Contract contract | Raw pyval | Msg Message

type_synonym entry = "string \<times> payload"

type_synonym 's outcome = "(error \<times> 's) + 's"

text \<open>Attribute access \<^verbatim>\<open>msg.good\<close> and \<^verbatim>\<open>msg.id\<close>: an object without the attribute raises.\<close>

fun attr_good :: "payload \<Rightarrow> error + pyval" where
  "attr_good (Offer x) = Inr (o_good x)"
| "attr_good (Contract c) = Inr (c_good c)"
| "attr_good (Quote q) = Inl AttributeError"
| "attr_good (Raw v) = Inl AttributeError"
| "attr_good (Msg m) = Inl AttributeError"

fun attr_id :: "payload \<Rightarrow> error + pyval" where
  "attr_id (Offer x) = Inr (o_id x)"
| "attr_id (Quote q) = Inr (q_id q)"
| "attr_id (Contract c) = Inr (c_id c)"
| "attr_id (Raw v) = Inl AttributeError"
| "attr_id (Msg m) = Inl AttributeError"

text \<open>
  Indexing \<^verbatim>\<open>msg[i]\<close> with a literal index. A tuple gives its element and a string its
  character, a number is not subscriptable. \<^verbatim>\<open>Message.__getitem__\<close> (lines 37-38) passes
  the index on to the content; the offer, quote and contract objects define no indexing.
\<close>

fun pyval_getitem :: "pyval \<Rightarrow> nat \<Rightarrow> error + pyval" where
  "pyval_getitem (Tup vs) i = (if i < length vs then Inr (vs ! i) else Inl IndexError)"
| "pyval_getitem (Str s) i = (if i < length s then Inr (Str [s ! i]) else Inl IndexError)"
| "pyval_getitem (Num x) i = Inl TypeError"

fun getitem :: "payload \<Rightarrow> nat \<Rightarrow> error + pyval" where
  "getitem (Raw v) i = pyval_getitem v i"
| "getitem (Msg m) i = pyval_getitem (content m) i"
| "getitem (Offer x) i = Inl TypeError"
| "getitem (Quote q) i = Inl TypeError"
| "getitem (Contract c) i = Inl TypeError"

subsection \<open>The state of an agent\<close>

text \<open>
  Dictionaries that the module enumerates (\<^verbatim>\<open>.values()\<close>, \<^verbatim>\<open>.items()\<close>) are association
  lists in insertion order: \<open>AList.update\<close> overwrites a key in place or appends a new one,
  as assignment to a Python dictionary does, and \<open>AList.delete\<close> removes a key. Dictionaries
  that are only read and written by key are maps.
\<close>

text \<open>
  Modelled from the spec: the tables of the other mixins are not declared in this module
  (spec 3: ``mapping good -> mapping offer-id -> offer'', ``mapping good -> mapping
  contract-id -> contract'', ``mapping id -> quote''). How the module uses them fixes their
  kind: \<^verbatim>\<open>self._open_offers_buy[msg.good][msg.id] = msg\<close> and
  \<^verbatim>\<open>self._contract_offers[msg.good].append(msg)\<close> write through a key that may be new,
  so the outer tables create a missing entry on access (\<^verbatim>\<open>defaultdict\<close>); a missing good
  therefore reads as an empty inner table. \<^verbatim>\<open>_contract_offers_made\<close> and \<^verbatim>\<open>_quotes\<close>
  are plain dictionaries. The inventory is read as a table of number objects that holds the
  \<^verbatim>\<open>int\<close> zero for a good it has never seen.
\<close>

record market =
  open_offers_buy :: "(pyval \<times> (pyval \<times> payload) list) list"
  open_offers_sell :: "(pyval \<times> (pyval \<times> payload) list) list"
  given_offers :: "(pyval \<times> offer) list"
  haves :: "pyval \<Rightarrow> number"
  quotes :: "pyval \<rightharpoonup> payload"
  contract_offers :: "pyval \<Rightarrow> payload list"
  contract_offers_made :: "pyval \<rightharpoonup> contract"
  contracts_pay :: "pyval \<Rightarrow> pyval \<rightharpoonup> contract"
  contracts_deliver :: "pyval \<Rightarrow> pyval \<rightharpoonup> contract"

text \<open>
  \<^verbatim>\<open>_out\<close> is a list in direct mode; in partitioned mode it is
  \<^verbatim>\<open>defaultdict(list)\<close>, from the number of a worker to the list of its entries.
\<close>

datatype outbox =
  OutList "(identity \<times> entry) list"
| OutBuckets "(int \<times> (identity \<times> entry) list) list"

text \<open>
  The agent. The framework sets \<^verbatim>\<open>name\<close>, \<^verbatim>\<open>group\<close>, \<^verbatim>\<open>id\<close>, \<^verbatim>\<open>round\<close>,
  \<^verbatim>\<open>trade_logging\<close> and \<^verbatim>\<open>_processes\<close>; the messenger reads them. The names
  \<open>group\<close>, \<open>id\<close> and \<open>round\<close> are taken in HOL, so these three fields carry the
  prefix \<open>agent_\<close>.
\<close>

record agent =
  name :: identity
  agent_group :: string
  agent_id :: int
  agent_round :: int
  trade_logging :: int
  processes :: int
  check_every_round_for_lost_messages :: bool
  msgs :: "(string \<times> payload list) list"
  inbox :: "entry list"
  out :: outbox
  market :: market

text \<open>
  Four methods that the clearing routine calls are defined in the trade class, outside this
  module: \<^verbatim>\<open>_receive_accept\<close>, \<^verbatim>\<open>_receive_reject\<close>, \<^verbatim>\<open>_log_receive_accept_group\<close>
  and \<^verbatim>\<open>_log_receive_accept_agent\<close>. They are parameters of the model. Each one reads the
  agent and its argument and either raises or returns, and leaves a market state behind in
  both cases; the mailbox fields belong to the messenger alone.

  The arithmetic of Python is a parameter too: \<open>number_add\<close> is \<^verbatim>\<open>+\<close> and
  \<open>number_mul\<close> is \<^verbatim>\<open>*\<close> on number objects, with whatever rounding the interpreter
  does, so that no statement about an amount assumes exact arithmetic. A \<open>pyval\<close> identifies
  the numbers that compare equal (\<^verbatim>\<open>1\<close> and \<^verbatim>\<open>1.0\<close>), as a dictionary key must;
  \<open>as_number\<close> gives the number object that a number in a message is.
\<close>

record helpers =
  receive_accept :: "agent \<Rightarrow> payload \<Rightarrow> (error \<times> market) + (offer \<times> market)"
  receive_reject :: "agent \<Rightarrow> payload \<Rightarrow> (error \<times> market) + market"
  log_receive_accept_group :: "agent \<Rightarrow> offer \<Rightarrow> (error \<times> market) + market"
  log_receive_accept_agent :: "agent \<Rightarrow> offer \<Rightarrow> (error \<times> market) + market"
  number_add :: "number \<Rightarrow> number \<Rightarrow> number"
  number_mul :: "number \<Rightarrow> number \<Rightarrow> number"
  as_number :: "real \<Rightarrow> number"

text \<open>
  \<^verbatim>\<open>Messenger.__init__\<close> (lines 46-51): the constructors of the other classes run first
  and leave the agent \<open>a\<close>; the messenger then creates its three containers and stores the
  audit flag \<^verbatim>\<open>simulation_parameters['check_unchecked_msgs']\<close>.
\<close>

definition init :: "agent \<Rightarrow> bool \<Rightarrow> agent" where
  "init a check_unchecked_msgs =
     a\<lparr>msgs := [], inbox := [], out := OutList [],
       check_every_round_for_lost_messages := check_unchecked_msgs\<rparr>"

subsection \<open>Retrieval: \<^verbatim>\<open>get_messages\<close>\<close>

text \<open>
  \<^verbatim>\<open>random.shuffle\<close> of the standard library walks the list from its last position down
  to position 1 and swaps position \<open>i\<close> with a position drawn from \<open>0..i\<close>. The draws
  are the parameter \<open>rnd\<close>: \<open>rnd i\<close> is the number drawn for position \<open>i\<close>.
\<close>

fun shuffle_from :: "(nat \<Rightarrow> nat) \<Rightarrow> nat \<Rightarrow> 'a list \<Rightarrow> 'a list" where
  "shuffle_from rnd 0 xs = xs"
| "shuffle_from rnd (Suc i) xs =
     (let j = rnd (Suc i) mod (Suc i + 1)
      in shuffle_from rnd i (xs[Suc i := xs ! j, j := xs ! Suc i]))"

definition shuffle :: "(nat \<Rightarrow> nat) \<Rightarrow> 'a list \<Rightarrow> 'a list" where
  "shuffle rnd xs = shuffle_from rnd (length xs - 1) xs"

text \<open>\<^verbatim>\<open>d[k]\<close> on a plain dictionary.\<close>

definition dict_getitem :: "('k \<times> 'v) list \<Rightarrow> 'k \<Rightarrow> error + 'v" where
  "dict_getitem d k = (case map_of d k of None \<Rightarrow> Inl KeyError | Some v \<Rightarrow> Inr v)"

text \<open>
  \<^verbatim>\<open>get_messages\<close> (lines 132-136):
  \<^verbatim>\<open>
        try:
            shuffle(self._msgs[topic])
        except KeyError:
            self._msgs[topic] = []
        return self._msgs.pop(topic)
  \<close>
  The \<^verbatim>\<open>try\<close> leaves the dictionary with an entry for the topic in both cases: the
  shuffled list, or the empty list that the handler stores; \<^verbatim>\<open>pop\<close> then returns that
  entry and removes it. Only \<^verbatim>\<open>KeyError\<close> is caught.
\<close>

definition get_messages :: "(nat \<Rightarrow> nat) \<Rightarrow> string \<Rightarrow> agent \<Rightarrow> (error \<times> agent) + (payload list \<times> agent)" where
  "get_messages rnd tpc a =
     (case (case dict_getitem (msgs a) tpc of
              Inr xs \<Rightarrow> Inr (a\<lparr>msgs := AList.update tpc (shuffle rnd xs) (msgs a)\<rparr>)
            | Inl KeyError \<Rightarrow> Inr (a\<lparr>msgs := AList.update tpc [] (msgs a)\<rparr>)
            | Inl e \<Rightarrow> Inl (e, a)) of
        Inl x \<Rightarrow> Inl x
      | Inr a1 \<Rightarrow>
          (case map_of (msgs a1) tpc of
             None \<Rightarrow> Inl (KeyError, a1)
           | Some xs \<Rightarrow> Inr (xs, a1\<lparr>msgs := AList.delete tpc (msgs a1)\<rparr>)))"

subsection \<open>The clearing routine: \<^verbatim>\<open>_do_message_clearing\<close>\<close>

text \<open>
  \<^verbatim>\<open>d[g][i] = v\<close> on a \<^verbatim>\<open>defaultdict(dict)\<close> that the module enumerates: the inner
  table of \<open>g\<close> is created when it is missing.
\<close>

definition nested_set :: "'k \<Rightarrow> 'i \<Rightarrow> 'v \<Rightarrow> ('k \<times> ('i \<times> 'v) list) list \<Rightarrow> ('k \<times> ('i \<times> 'v) list) list" where
  "nested_set g i v tbl =
     AList.update g (AList.update i v (case map_of tbl g of None \<Rightarrow> [] | Some inner \<Rightarrow> inner)) tbl"

text \<open>
  \<^verbatim>\<open>self._inventory[g] += q\<close> and \<^verbatim>\<open>self._inventory.haves[g] += q\<close>: the entry of
  \<open>g\<close> becomes what Python's \<^verbatim>\<open>+\<close> makes of the entry and \<open>q\<close>.
\<close>

definition credit :: "helpers \<Rightarrow> pyval \<Rightarrow> number \<Rightarrow> agent \<Rightarrow> agent" where
  "credit h g q a =
     a\<lparr>market := (market a)\<lparr>haves := (haves (market a))(g := number_add h (haves (market a) g) q)\<rparr>\<rparr>"

text \<open>
  Kind \<^verbatim>\<open>'!b'\<close> (line 167): \<^verbatim>\<open>self._open_offers_buy[msg.good][msg.id] = msg\<close>, and kind
  \<^verbatim>\<open>'!s'\<close> (line 169), the same on \<^verbatim>\<open>_open_offers_sell\<close>.
\<close>

definition clear_buy_offer :: "payload \<Rightarrow> agent \<Rightarrow> agent outcome" where
  "clear_buy_offer msg a =
     (case attr_good msg of
        Inl e \<Rightarrow> Inl (e, a)
      | Inr g \<Rightarrow>
          (case attr_id msg of
             Inl e \<Rightarrow> Inl (e, a)
           | Inr i \<Rightarrow> Inr (a\<lparr>market := (market a)\<lparr>open_offers_buy :=
                         nested_set g i msg (open_offers_buy (market a))\<rparr>\<rparr>)))"

definition clear_sell_offer :: "payload \<Rightarrow> agent \<Rightarrow> agent outcome" where
  "clear_sell_offer msg a =
     (case attr_good msg of
        Inl e \<Rightarrow> Inl (e, a)
      | Inr g \<Rightarrow>
          (case attr_id msg of
             Inl e \<Rightarrow> Inl (e, a)
           | Inr i \<Rightarrow> Inr (a\<lparr>market := (market a)\<lparr>open_offers_sell :=
                         nested_set g i msg (open_offers_sell (market a))\<rparr>\<rparr>)))"

text \<open>
  Kind \<^verbatim>\<open>'_p'\<close> (lines 171-175):
  \<^verbatim>\<open>
                offer = self._receive_accept(msg)
                if self.trade_logging == 2:
                    self._log_receive_accept_group(offer)
                elif self.trade_logging == 1:
                    self._log_receive_accept_agent(offer)
  \<close>
\<close>

definition clear_accept :: "helpers \<Rightarrow> payload \<Rightarrow> agent \<Rightarrow> agent outcome" where
  "clear_accept h msg a =
     (case receive_accept h a msg of
        Inl (e, m) \<Rightarrow> Inl (e, a\<lparr>market := m\<rparr>)
      | Inr (offer, m) \<Rightarrow>
          (let a1 = a\<lparr>market := m\<rparr> in
           if trade_logging a1 = 2 then
             (case log_receive_accept_group h a1 offer of
                Inl (e, m') \<Rightarrow> Inl (e, a1\<lparr>market := m'\<rparr>)
              | Inr m' \<Rightarrow> Inr (a1\<lparr>market := m'\<rparr>))
           else if trade_logging a1 = 1 then
             (case log_receive_accept_agent h a1 offer of
                Inl (e, m') \<Rightarrow> Inl (e, a1\<lparr>market := m'\<rparr>)
              | Inr m' \<Rightarrow> Inr (a1\<lparr>market := m'\<rparr>))
           else Inr a1))"

text \<open>Kind \<^verbatim>\<open>'_r'\<close> (line 177): \<^verbatim>\<open>self._receive_reject(msg)\<close>.\<close>

definition clear_reject :: "helpers \<Rightarrow> payload \<Rightarrow> agent \<Rightarrow> agent outcome" where
  "clear_reject h msg a =
     (case receive_reject h a msg of
        Inl (e, m) \<Rightarrow> Inl (e, a\<lparr>market := m\<rparr>)
      | Inr m \<Rightarrow> Inr (a\<lparr>market := m\<rparr>))"

text \<open>
  Kind \<^verbatim>\<open>'_g'\<close> (line 179): \<^verbatim>\<open>self._inventory.haves[msg[0]] += msg[1]\<close>. The table
  holds numbers, and adding anything but a number to a number raises \<^verbatim>\<open>TypeError\<close>.
\<close>

definition clear_free_transfer :: "helpers \<Rightarrow> payload \<Rightarrow> agent \<Rightarrow> agent outcome" where
  "clear_free_transfer h msg a =
     (case getitem msg 0 of
        Inl e \<Rightarrow> Inl (e, a)
      | Inr g \<Rightarrow>
          (case getitem msg 1 of
             Inl e \<Rightarrow> Inl (e, a)
           | Inr (Num q) \<Rightarrow> Inr (credit h g (as_number h q) a)
           | Inr v \<Rightarrow> Inl (TypeError, a)))"

text \<open>Kind \<^verbatim>\<open>'_q'\<close> (line 181): \<^verbatim>\<open>self._quotes[msg.id] = msg\<close>.\<close>

definition clear_quote :: "payload \<Rightarrow> agent \<Rightarrow> agent outcome" where
  "clear_quote msg a =
     (case attr_id msg of
        Inl e \<Rightarrow> Inl (e, a)
      | Inr i \<Rightarrow> Inr (a\<lparr>market := (market a)\<lparr>quotes := (quotes (market a))(i \<mapsto> msg)\<rparr>\<rparr>))"

text \<open>Kind \<^verbatim>\<open>'!o'\<close> (line 183): \<^verbatim>\<open>self._contract_offers[msg.good].append(msg)\<close>.\<close>

definition clear_contract_offer :: "payload \<Rightarrow> agent \<Rightarrow> agent outcome" where
  "clear_contract_offer msg a =
     (case attr_good msg of
        Inl e \<Rightarrow> Inl (e, a)
      | Inr g \<Rightarrow> Inr (a\<lparr>market := (market a)\<lparr>contract_offers :=
                    (contract_offers (market a))(g := contract_offers (market a) g @ [msg])\<rparr>\<rparr>))"

text \<open>\<^verbatim>\<open>tbl[c.good][c.id] = c\<close> on a contract table.\<close>

definition file_contract :: "contract \<Rightarrow> (pyval \<Rightarrow> pyval \<rightharpoonup> contract) \<Rightarrow> (pyval \<Rightarrow> pyval \<rightharpoonup> contract)" where
  "file_contract c tbl = tbl(c_good c := (tbl (c_good c))(c_id c \<mapsto> c))"

text \<open>
  Kind \<^verbatim>\<open>'_ac'\<close> (lines 185-189):
  \<^verbatim>\<open>
                contract = self._contract_offers_made.pop(msg.id)
                if contract.pay_group == self.group and contract.pay_id == self.id:
                    self._contracts_pay[contract.good][contract.id] = contract
                else:
                    self._contracts_deliver[contract.good][contract.id] = contract
  \<close>
  \<^verbatim>\<open>pop\<close> without a default raises \<^verbatim>\<open>KeyError\<close> when the key is missing.
\<close>

definition clear_contract_accept :: "payload \<Rightarrow> agent \<Rightarrow> agent outcome" where
  "clear_contract_accept msg a =
     (case attr_id msg of
        Inl e \<Rightarrow> Inl (e, a)
      | Inr i \<Rightarrow>
          (case contract_offers_made (market a) i of
             None \<Rightarrow> Inl (KeyError, a)
           | Some c \<Rightarrow>
               (let m = (market a)\<lparr>contract_offers_made := (contract_offers_made (market a))(i := None)\<rparr>
                in if c_pay_group c = agent_group a \<and> c_pay_id c = agent_id a
                   then Inr (a\<lparr>market := m\<lparr>contracts_pay := file_contract c (contracts_pay m)\<rparr>\<rparr>)
                   else Inr (a\<lparr>market := m\<lparr>contracts_deliver := file_contract c (contracts_deliver m)\<rparr>\<rparr>))))"

text \<open>
  Kind \<^verbatim>\<open>'_dp'\<close> (lines 191-196):
  \<^verbatim>\<open>
                if msg.pay_group == self.group and msg.pay_id == self.id:
                    self._inventory[msg.good] += msg.quantity
                    self._contracts_pay[msg.good][msg.id].delivered.append(self.round)
                else:
                    self._inventory['money'] += msg.quantity * msg.price
                    self._contracts_deliver[msg.good][msg.id].paid.append(self.round)
  \<close>
  Only a contract has the attributes \<^verbatim>\<open>pay_group\<close> and \<^verbatim>\<open>pay_id\<close>. The sum and the
  product are Python's. The inventory is credited before the contract is looked up, so a
  missing contract raises \<^verbatim>\<open>KeyError\<close> with the credit already made.
\<close>

definition clear_contract_event :: "helpers \<Rightarrow> payload \<Rightarrow> agent \<Rightarrow> agent outcome" where
  "clear_contract_event h msg a =
     (case msg of
        Contract c \<Rightarrow>
          (if c_pay_group c = agent_group a \<and> c_pay_id c = agent_id a then
             (let a1 = credit h (c_good c) (c_quantity c) a in
              case contracts_pay (market a1) (c_good c) (c_id c) of
                None \<Rightarrow> Inl (KeyError, a1)
              | Some k \<Rightarrow> Inr (a1\<lparr>market := (market a1)\<lparr>contracts_pay :=
                    (contracts_pay (market a1))(c_good c := (contracts_pay (market a1) (c_good c))
                       (c_id c \<mapsto> k\<lparr>c_delivered := c_delivered k @ [agent_round a1]\<rparr>))\<rparr>\<rparr>))
           else
             (let a1 = credit h (Str ''money'') (number_mul h (c_quantity c) (c_price c)) a in
              case contracts_deliver (market a1) (c_good c) (c_id c) of
                None \<Rightarrow> Inl (KeyError, a1)
              | Some k \<Rightarrow> Inr (a1\<lparr>market := (market a1)\<lparr>contracts_deliver :=
                    (contracts_deliver (market a1))(c_good c := (contracts_deliver (market a1) (c_good c))
                       (c_id c \<mapsto> k\<lparr>c_paid := c_paid k @ [agent_round a1]\<rparr>))\<rparr>\<rparr>)))
      | Offer x \<Rightarrow> Inl (AttributeError, a)
      | Quote q \<Rightarrow> Inl (AttributeError, a)
      | Raw v \<Rightarrow> Inl (AttributeError, a)
      | Msg m \<Rightarrow> Inl (AttributeError, a))"

text \<open>
  \<^verbatim>\<open>del tbl[msg[1]][msg[2]]\<close> on a contract table: \<^verbatim>\<open>KeyError\<close> when the table holds
  no such contract.
\<close>

definition del_contract :: "payload \<Rightarrow> (pyval \<Rightarrow> pyval \<rightharpoonup> contract) \<Rightarrow> error + (pyval \<Rightarrow> pyval \<rightharpoonup> contract)" where
  "del_contract msg tbl =
     (case getitem msg 1 of
        Inl e \<Rightarrow> Inl e
      | Inr g \<Rightarrow>
          (case getitem msg 2 of
             Inl e \<Rightarrow> Inl e
           | Inr i \<Rightarrow>
               (case tbl g i of
                  None \<Rightarrow> Inl KeyError
                | Some c \<Rightarrow> Inr (tbl(g := (tbl g)(i := None))))))"

text \<open>
  Kind \<^verbatim>\<open>'!d'\<close> (lines 199-202), two separate \<^verbatim>\<open>if\<close> statements with no \<^verbatim>\<open>else\<close>:
  \<^verbatim>\<open>
                if msg[0] == 'r':
                    del self._contracts_pay[msg[1]][msg[2]]
                if msg[0] == 'd':
                    del self._contracts_deliver[msg[1]][msg[2]]
  \<close>
\<close>

definition clear_contract_cancel :: "payload \<Rightarrow> agent \<Rightarrow> agent outcome" where
  "clear_contract_cancel msg a =
     (case getitem msg 0 of
        Inl e \<Rightarrow> Inl (e, a)
      | Inr d \<Rightarrow>
          (case (if d = Str ''r'' then
                   (case del_contract msg (contracts_pay (market a)) of
                      Inl e \<Rightarrow> Inl (e, a)
                    | Inr tbl \<Rightarrow> Inr (a\<lparr>market := (market a)\<lparr>contracts_pay := tbl\<rparr>\<rparr>))
                 else Inr a) of
             Inl x \<Rightarrow> Inl x
           | Inr a1 \<Rightarrow>
               (case getitem msg 0 of
                  Inl e \<Rightarrow> Inl (e, a1)
                | Inr d' \<Rightarrow>
                    (if d' = Str ''d'' then
                       (case del_contract msg (contracts_deliver (market a1)) of
                          Inl e \<Rightarrow> Inl (e, a1)
                        | Inr tbl \<Rightarrow> Inr (a1\<lparr>market := (market a1)\<lparr>contracts_deliver := tbl\<rparr>\<rparr>))
                     else Inr a1))))"

text \<open>Any other kind (line 204): \<^verbatim>\<open>self._msgs.setdefault(typ, []).append(msg)\<close>.\<close>

definition file_message :: "string \<Rightarrow> payload \<Rightarrow> agent \<Rightarrow> agent" where
  "file_message typ msg a =
     a\<lparr>msgs := AList.update typ
          ((case map_of (msgs a) typ of None \<Rightarrow> [] | Some xs \<Rightarrow> xs) @ [msg]) (msgs a)\<rparr>"

text \<open>The kinds that the \<^verbatim>\<open>if\<close>/\<^verbatim>\<open>elif\<close> chain of lines 166-198 recognises.\<close>

definition reserved :: "string list" where
  "reserved = [''!b'', ''!s'', ''_p'', ''_r'', ''_g'', ''_q'', ''!o'', ''_ac'', ''_dp'', ''!d'']"

text \<open>The body of the loop (lines 166-204): the chain of comparisons, in the order of the source.\<close>

definition clear_entry :: "helpers \<Rightarrow> entry \<Rightarrow> agent \<Rightarrow> agent outcome" where
  "clear_entry h e a =
     (case e of (typ, msg) \<Rightarrow>
        if typ = ''!b'' then clear_buy_offer msg a
        else if typ = ''!s'' then clear_sell_offer msg a
        else if typ = ''_p'' then clear_accept h msg a
        else if typ = ''_r'' then clear_reject h msg a
        else if typ = ''_g'' then clear_free_transfer h msg a
        else if typ = ''_q'' then clear_quote msg a
        else if typ = ''!o'' then clear_contract_offer msg a
        else if typ = ''_ac'' then clear_contract_accept msg a
        else if typ = ''_dp'' then clear_contract_event h msg a
        else if typ = ''!d'' then clear_contract_cancel msg a
        else Inr (file_message typ msg a))"

text \<open>
  The loop \<^verbatim>\<open>for typ, msg in self.inbox\<close> (line 165). No branch changes the inbox, so the
  loop runs over the entries that the inbox holds when the routine is called; an exception
  in the body ends the loop and the routine.
\<close>

fun clear_loop :: "helpers \<Rightarrow> entry list \<Rightarrow> agent \<Rightarrow> agent outcome" where
  "clear_loop h [] a = Inr a"
| "clear_loop h (e # es) a =
     (case clear_entry h e a of
        Inl x \<Rightarrow> Inl x
      | Inr a1 \<Rightarrow> clear_loop h es a1)"

text \<open>\<^verbatim>\<open>_do_message_clearing\<close> (lines 165-205): the loop, then \<^verbatim>\<open>self.inbox.clear()\<close>.\<close>

definition do_message_clearing :: "helpers \<Rightarrow> agent \<Rightarrow> agent outcome" where
  "do_message_clearing h a =
     (case clear_loop h (inbox a) a of
        Inl x \<Rightarrow> Inl x
      | Inr a1 \<Rightarrow> Inr (a1\<lparr>inbox := []\<rparr>))"

subsection \<open>Sending and delivery\<close>

text \<open>
  \<^verbatim>\<open>_send\<close> (line 221): \<^verbatim>\<open>self._out.append((receiver, (typ, msg)))\<close>. A
  \<^verbatim>\<open>defaultdict\<close> has no \<^verbatim>\<open>append\<close>.
\<close>

definition send_direct :: "identity \<Rightarrow> string \<Rightarrow> payload \<Rightarrow> agent \<Rightarrow> agent outcome" where
  "send_direct rcv typ msg a =
     (case out a of
        OutList xs \<Rightarrow> Inr (a\<lparr>out := OutList (xs @ [(rcv, (typ, msg))])\<rparr>)
      | OutBuckets b \<Rightarrow> Inl (AttributeError, a))"

text \<open>
  \<^verbatim>\<open>send\<close> (lines 85-89) builds the \<^verbatim>\<open>Message\<close> with the agent's own name as sender
  and hands it to \<^verbatim>\<open>_send\<close>.
\<close>

definition send :: "identity \<Rightarrow> string \<Rightarrow> pyval \<Rightarrow> agent \<Rightarrow> agent outcome" where
  "send rcv tpc cnt a =
     send_direct rcv tpc
       (Msg \<lparr>sender = name a, receiver = rcv, topic = tpc, content = cnt\<rparr>) a"



text \<open>
  \<^verbatim>\<open>_post_messages_multiprocessing\<close> (lines 213-215) returns the outbox and installs a
  fresh \<^verbatim>\<open>defaultdict(list)\<close>.
\<close>

definition post_messages_multiprocessing :: "int \<Rightarrow> agent \<Rightarrow> outbox \<times> agent" where
  "post_messages_multiprocessing num_processes a = (out a, a\<lparr>out := OutBuckets []\<rparr>)"

text \<open>
  \<^verbatim>\<open>_post_messages(self, agents)\<close> (lines 208-210) appends to the inboxes of other agent
  objects, and \<^verbatim>\<open>self\<close> may be one of them. The registry \<^verbatim>\<open>agents\<close> is therefore the
  store: a map from the identity of an agent to its state, and \<^verbatim>\<open>self\<close> is the agent
  registered under \<open>me\<close>.
  \<^verbatim>\<open>
        for name, envelope in self._out:
            agents[name].inbox.append(envelope)
        self._out.clear()
  \<close>
  The loop body never touches an outbox, so the loop runs over the entries that the outbox
  holds at the call. A receiver that is not registered raises \<^verbatim>\<open>KeyError\<close>.
\<close>

type_synonym registry = "identity \<rightharpoonup> agent"

fun post_loop :: "(identity \<times> entry) list \<Rightarrow> registry \<Rightarrow> registry outcome" where
  "post_loop [] ag = Inr ag"
| "post_loop ((nm, envelope) # es) ag =
     (case ag nm of
        None \<Rightarrow> Inl (KeyError, ag)
      | Some r \<Rightarrow> post_loop es (ag(nm \<mapsto> r\<lparr>inbox := inbox r @ [envelope]\<rparr>)))"

text \<open>
  Iterating a \<^verbatim>\<open>defaultdict\<close> yields its keys, the numbers of the workers, and unpacking a
  number into \<^verbatim>\<open>name, envelope\<close> raises \<^verbatim>\<open>TypeError\<close>; an empty one is passed over. A key
  \<open>me\<close> under which no agent is registered has no \<^verbatim>\<open>self\<close> to run the method on: the
  lookup of the caller fails.
\<close>

definition post_messages :: "identity \<Rightarrow> registry \<Rightarrow> registry outcome" where
  "post_messages me ag =
     (case ag me of
        None \<Rightarrow> Inl (KeyError, ag)
      | Some self \<Rightarrow>
          (case out self of
             OutList es \<Rightarrow>
               (case post_loop es ag of
                  Inl x \<Rightarrow> Inl x
                | Inr ag1 \<Rightarrow>
                    (case ag1 me of
                       None \<Rightarrow> Inl (KeyError, ag1)
                     | Some self1 \<Rightarrow> Inr (ag1(me \<mapsto> self1\<lparr>out := OutList []\<rparr>))))
           | OutBuckets [] \<Rightarrow> Inr ag
           | OutBuckets (b # bs) \<Rightarrow> Inl (TypeError, ag)))"

subsection \<open>The auditor: \<^verbatim>\<open>_check_for_lost_messages\<close>\<close>

text \<open>
  Lines 230-257. The first loop raises at the first offer of \<^verbatim>\<open>given_offers\<close> that was made
  before the current round (what it prints before that, the attribute
  \<^verbatim>\<open>name_without_colon\<close> of the framework included, is output only); the three tests that follow sum the lengths of the inner tables
  and raise when the sum is not zero. The method changes nothing: it returns or raises.
\<close>

definition count_entries :: "('k \<times> 'v list) list \<Rightarrow> nat" where
  "count_entries d = sum_list (map (\<lambda>kv. length (snd kv)) d)"

definition check_for_lost_messages :: "agent \<Rightarrow> error + unit" where
  "check_for_lost_messages a =
     (if list_ex (\<lambda>kv. o_made (snd kv) < agent_round a) (given_offers (market a))
      then Inl (Fatal OffersMadeNotRetrieved (agent_group a) (agent_id a))
      else if count_entries (open_offers_buy (market a)) \<noteq> 0
      then Inl (Fatal OffersNotRetrieved (agent_group a) (agent_id a))
      else if count_entries (open_offers_sell (market a)) \<noteq> 0
      then Inl (Fatal OffersNotRetrieved (agent_group a) (agent_id a))
      else if count_entries (msgs a) \<noteq> 0
      then Inl (Fatal MessagesNotRetrieved (agent_group a) (agent_id a))
      else Inr ())"

subsection \<open>States for the examples\<close>

text \<open>
  An agent before its first round: empty tables, an empty inventory and the mailbox as
  \<^verbatim>\<open>Messenger.__init__\<close> creates it; helper methods that return at once; and a source of
  randomness that always draws 0. The examples calculate with \<^verbatim>\<open>int\<close> objects only, on
  which Python's sum and product are the exact ones; \<open>int_add\<close> and \<open>int_mul\<close> are that
  part of the arithmetic, and give not-a-number elsewhere.
\<close>

fun int_add :: "number \<Rightarrow> number \<Rightarrow> number" where
  "int_add (IntN x) (IntN y) = IntN (x + y)"
| "int_add x y = NaN"

fun int_mul :: "number \<Rightarrow> number \<Rightarrow> number" where
  "int_mul (IntN x) (IntN y) = IntN (x * y)"
| "int_mul x y = NaN"

definition empty_market :: market where
  "empty_market =
     \<lparr>open_offers_buy = [], open_offers_sell = [], given_offers = [], haves = (\<lambda>g. IntN 0),
      quotes = Map.empty, contract_offers = (\<lambda>g. []), contract_offers_made = Map.empty,
      contracts_pay = (\<lambda>g. Map.empty), contracts_deliver = (\<lambda>g. Map.empty)\<rparr>"

definition new_agent :: "string \<Rightarrow> int \<Rightarrow> agent" where
  "new_agent g i =
     init \<lparr>name = (g, i), agent_group = g, agent_id = i, agent_round = 0, trade_logging = 0,
           processes = 1, check_every_round_for_lost_messages = False,
           msgs = [], inbox = [], out = OutList [], market = empty_market\<rparr> True"

definition idle_helpers :: helpers where
  "idle_helpers =
     \<lparr>receive_accept = (\<lambda>a msg. Inr (\<lparr>o_good = Str ''BRD'', o_id = Num 0, o_made = 0, o_rest = Tup []\<rparr>, market a)),
      receive_reject = (\<lambda>a msg. Inr (market a)),
      log_receive_accept_group = (\<lambda>a x. Inr (market a)),
      log_receive_accept_agent = (\<lambda>a x. Inr (market a)),
      number_add = int_add, number_mul = int_mul, as_number = FloatN\<rparr>"

definition first_draw :: "nat \<Rightarrow> nat" where
  "first_draw i = 0"

text \<open>
  A contract over five units of bread at the price 2, with the payer \<open>(g, i)\<close>; an agent
  that has offered a contract; an agent that holds a contract in its pay track, and one that
  holds it in its deliver track, both in round 3.
\<close>

definition bread_contract :: "string \<Rightarrow> int \<Rightarrow> contract" where
  "bread_contract g i =
     \<lparr>c_good = Str ''BRD'', c_id = Num 7, c_pay_group = g, c_pay_id = i, c_quantity = IntN 5,
      c_price = IntN 2, c_delivered = [], c_paid = [], c_rest = Tup []\<rparr>"

definition offering_agent :: "contract \<Rightarrow> agent" where
  "offering_agent c =
     (new_agent ''firm'' 0)\<lparr>market := empty_market\<lparr>contract_offers_made := [c_id c \<mapsto> c]\<rparr>\<rparr>"

definition paying_agent :: "contract \<Rightarrow> agent" where
  "paying_agent c =
     (new_agent ''firm'' 0)\<lparr>agent_round := 3, market := empty_market\<lparr>contracts_pay := (\<lambda>g. Map.empty)(c_good c := [c_id c \<mapsto> c])\<rparr>\<rparr>"


text \<open>An agent that has not read a message of the topic \<^verbatim>\<open>m\<close>.\<close>

definition unread_agent :: agent where
  "unread_agent = (new_agent ''firm'' 0)
     \<lparr>msgs := [(''m'', [Msg \<lparr>sender = (''household'', 1), receiver = (''firm'', 0),
                            topic = ''m'', content = Str ''hello''\<rparr>])]\<rparr>"



text \<open>
  Modelled from the spec: the place that calls the auditor is not part of the source. Spec
  4.6: the auditor is ``optional, enabled by configuration'' and ``runs at round end''; the
  configuration is the flag that \<^verbatim>\<open>Messenger.__init__\<close> stores (line 51).
\<close>

definition end_of_round_check :: "agent \<Rightarrow> error + unit" where
  "end_of_round_check a =
     (if check_every_round_for_lost_messages a then check_for_lost_messages a else Inr ())"

text \<open>
  The message \<^verbatim>\<open>hello\<close> under the topic \<^verbatim>\<open>m\<close>; an agent whose inbox holds the
  cancellation of a contract that it does not hold, followed by a message; and an agent whose
  inbox holds two messages.
\<close>

definition hello :: "identity \<Rightarrow> identity \<Rightarrow> payload" where
  "hello s r = Msg \<lparr>sender = s, receiver = r, topic = ''m'', content = Str ''hello''\<rparr>"

definition stuck_agent :: agent where
  "stuck_agent = (new_agent ''firm'' 0)
     \<lparr>inbox := [(''!d'', Raw (Tup [Str ''r'', Str ''BRD'', Num 7])),
                (''m'', hello (''household'', 1) (''firm'', 0))]\<rparr>"

definition busy_agent :: agent where
  "busy_agent = (new_agent ''firm'' 0)
     \<lparr>inbox := [(''m'', hello (''household'', 1) (''firm'', 0)),
                (''m'', hello (''household'', 2) (''firm'', 0))]\<rparr>"

subsection \<open>Auxiliary predicates\<close>

text \<open>An outcome that leaves the three containers of the mailbox as they are in \<open>a\<close>.\<close>

definition same_mailbox :: "agent \<Rightarrow> agent outcome \<Rightarrow> bool" where
  "same_mailbox a r =
     (case r of
        Inl (e, a') \<Rightarrow> msgs a' = msgs a \<and> inbox a' = inbox a \<and> out a' = out a
      | Inr a' \<Rightarrow> msgs a' = msgs a \<and> inbox a' = inbox a \<and> out a' = out a)"

subsection \<open>A round\<close>

text \<open>
  Modelled from the spec: the scheduler that drives a round is not part of the source. Spec
  5 fixes the phases of a round and their order: send phase, delivery phase, clearing phase,
  retrieval phase; spec 6 has the router invoked once per round for each agent. A sending
  \<open>(s, r, t, c)\<close> is the call \<^verbatim>\<open>send(r, t, c)\<close> by the agent registered under \<open>s\<close>. The
  send phase makes the calls of a list in order; the delivery phase calls
  \<^verbatim>\<open>_post_messages\<close> for each agent of a list in order. Both stop at the first exception.
\<close>

type_synonym sending = "identity \<times> identity \<times> string \<times> pyval"

fun send_phase :: "sending list \<Rightarrow> registry \<Rightarrow> registry outcome" where
  "send_phase [] ag = Inr ag"
| "send_phase ((s, rcv, tpc, cnt) # rest) ag =
     (case ag s of
        None \<Rightarrow> Inl (KeyError, ag)
      | Some a \<Rightarrow>
          (case send rcv tpc cnt a of
             Inl (e, a') \<Rightarrow> Inl (e, ag(s \<mapsto> a'))
           | Inr a' \<Rightarrow> send_phase rest (ag(s \<mapsto> a'))))"

fun delivery_phase :: "identity list \<Rightarrow> registry \<Rightarrow> registry outcome" where
  "delivery_phase [] ag = Inr ag"
| "delivery_phase (me # rest) ag =
     (case post_messages me ag of
        Inl x \<Rightarrow> Inl x
      | Inr ag1 \<Rightarrow> delivery_phase rest ag1)"

text \<open>
  A round as one agent sees it: the sends, the delivery pass, its own clearing pass, and then
  two calls of \<^verbatim>\<open>get_messages\<close> for one topic. The result is what the two calls return.
\<close>

definition get_after_round ::
  "helpers \<Rightarrow> (nat \<Rightarrow> nat) \<Rightarrow> (nat \<Rightarrow> nat) \<Rightarrow> sending list \<Rightarrow> identity list \<Rightarrow> identity \<Rightarrow> string
     \<Rightarrow> registry \<Rightarrow> error + (payload list \<times> payload list)" where
  "get_after_round h rnd rnd' sends names rcv tpc ag =
     (case send_phase sends ag of
        Inl (e, ag') \<Rightarrow> Inl e
      | Inr ag1 \<Rightarrow>
     (case delivery_phase names ag1 of
        Inl (e, ag') \<Rightarrow> Inl e
      | Inr ag2 \<Rightarrow>
     (case ag2 rcv of
        None \<Rightarrow> Inl KeyError
      | Some a2 \<Rightarrow>
     (case do_message_clearing h a2 of
        Inl (e, a') \<Rightarrow> Inl e
      | Inr a3 \<Rightarrow>
     (case get_messages rnd tpc a3 of
        Inl (e, a') \<Rightarrow> Inl e
      | Inr (xs, a4) \<Rightarrow>
     (case get_messages rnd' tpc a4 of
        Inl (e, a') \<Rightarrow> Inl e
      | Inr (ys, a5) \<Rightarrow> Inr (xs, ys)))))))"

text \<open>
  The queue of a topic, empty when the topic has no entry; the \<^verbatim>\<open>Message\<close> that a
  sending builds; the messages that a list of sendings addresses to one receiver under one
  topic; the outbox entries that the sendings of one sender make; the inbox entries that an
  outbox holds for one receiver.
\<close>

definition queue :: "string \<Rightarrow> agent \<Rightarrow> payload list" where
  "queue tpc a = (case map_of (msgs a) tpc of None \<Rightarrow> [] | Some xs \<Rightarrow> xs)"

definition envelope_of :: "sending \<Rightarrow> payload" where
  "envelope_of x =
     (case x of (s, r, t, c) \<Rightarrow> Msg \<lparr>sender = s, receiver = r, topic = t, content = c\<rparr>)"

definition sent_to :: "identity \<Rightarrow> string \<Rightarrow> sending list \<Rightarrow> payload list" where
  "sent_to rcv tpc sends =
     map envelope_of (filter (\<lambda>x. fst (snd x) = rcv \<and> fst (snd (snd x)) = tpc) sends)"

definition outgoing :: "identity \<Rightarrow> sending list \<Rightarrow> (identity \<times> entry) list" where
  "outgoing n sends =
     map (\<lambda>x. (fst (snd x), (fst (snd (snd x)), envelope_of x))) (filter (\<lambda>x. fst x = n) sends)"

definition addressed :: "identity \<Rightarrow> (identity \<times> entry) list \<Rightarrow> entry list" where
  "addressed n es = map snd (filter (\<lambda>x. fst x = n) es)"

fun out_list :: "outbox \<Rightarrow> (identity \<times> entry) list" where
  "out_list (OutList es) = es"
| "out_list (OutBuckets b) = []"

definition outbox_of :: "registry \<Rightarrow> identity \<Rightarrow> (identity \<times> entry) list" where
  "outbox_of ag n = (case ag n of None \<Rightarrow> [] | Some b \<Rightarrow> out_list (out b))"

text \<open>Every agent is registered under its own name and is in direct mode.\<close>

definition lists_only :: "registry \<Rightarrow> bool" where
  "lists_only ag = (\<forall>n b. ag n = Some b \<longrightarrow> name b = n \<and> (\<exists>es. out b = OutList es))"

text \<open>Every entry of every outbox is addressed to a registered agent.\<close>

definition deliverable :: "registry \<Rightarrow> bool" where
  "deliverable ag = (\<forall>m x. x \<in> set (outbox_of ag m) \<longrightarrow> ag (fst x) \<noteq> None)"

text \<open>
  Two registries with a household and a firm: in the first the firm has not read a message
  of an earlier round, in the second both agents are new. A round with one sending and a
  round in which the household sends \<^verbatim>\<open>hello\<close> twice.
\<close>

definition two_agents :: registry where
  "two_agents = [(''household'', 1) \<mapsto> new_agent ''household'' 1, (''firm'', 0) \<mapsto> unread_agent]"

definition fresh_agents :: registry where
  "fresh_agents = [(''household'', 1) \<mapsto> new_agent ''household'' 1, (''firm'', 0) \<mapsto> new_agent ''firm'' 0]"

definition one_send :: "sending list" where
  "one_send = [((''household'', 1), (''firm'', 0), ''m'', Str ''again'')]"

definition two_sends :: "sending list" where
  "two_sends = [((''household'', 1), (''firm'', 0), ''m'', Str ''hello''),
                ((''household'', 1), (''firm'', 0), ''m'', Str ''hello'')]"

definition both :: "identity list" where
  "both = [(''household'', 1), (''firm'', 0)]"

section \<open>Properties\<close>

subsection \<open>Retrieval of a topic that holds nothing\<close>

lemma delete_update_unseen: "map_of al k = None \<Longrightarrow> AList.delete k (AList.update k v al) = al"
  by (induction al) (auto split: if_splits)

lemma get_messages_unseen:
  "map_of (msgs a) tpc = None \<Longrightarrow> get_messages rnd tpc a = Inr ([], a)"
  by (simp add: get_messages_def dict_getitem_def update_conv' delete_update_unseen)

text \<open>
  C8. A topic that has never received a message has no entry in \<^verbatim>\<open>_msgs\<close>. For such a
  topic \<^verbatim>\<open>get_messages\<close> returns the empty list; it does not raise.
\<close>

theorem get_unseen_topic_empty:
  "map_of (msgs a) tpc = None \<Longrightarrow> \<exists>a'. get_messages rnd tpc a = Inr ([], a')"
  by (simp add: get_messages_unseen)

theorem get_unseen_topic_empty_witness:
  "map_of (msgs (new_agent ''firm'' 0)) ''news'' = None \<and>
   (\<exists>a'. get_messages first_draw ''news'' (new_agent ''firm'' 0) = Inr ([], a'))"
  using get_unseen_topic_empty [of "new_agent ''firm'' 0" "''news''" first_draw]
  by (simp add: new_agent_def init_def)

text \<open>
  C9, as the claim states it, fails. The claim: after \<^verbatim>\<open>get_messages\<close> on a topic never
  seen, the dictionary \<^verbatim>\<open>_msgs\<close> keeps an empty entry for the topic. A new agent has no
  entry for the topic \<^verbatim>\<open>news\<close>, and after the call it is the same agent: it still has none.
\<close>

theorem get_unseen_topic_leaves_entry_counterexample:
  "map_of (msgs (new_agent ''firm'' 0)) ''news'' = None \<and>
   get_messages first_draw ''news'' (new_agent ''firm'' 0) = Inr ([], new_agent ''firm'' 0) \<and>
   map_of (msgs (new_agent ''firm'' 0)) ''news'' \<noteq> Some []"
  by (simp add: new_agent_def init_def get_messages_def dict_getitem_def)

text \<open>
  C9, amended. For a topic without an entry, the handler of \<^verbatim>\<open>KeyError\<close> stores an empty
  list under the topic and \<^verbatim>\<open>pop\<close> removes it again before the method returns: the call
  returns the empty list and the dictionary it leaves is the dictionary it found.
\<close>

theorem get_unseen_topic_restores_msgs:
  "map_of (msgs a) tpc = None \<Longrightarrow>
   get_messages rnd tpc a =
     Inr ([], a\<lparr>msgs := AList.delete tpc (AList.update tpc [] (msgs a))\<rparr>) \<and>
   AList.delete tpc (AList.update tpc [] (msgs a)) = msgs a"
  by (simp add: get_messages_unseen delete_update_unseen)

theorem get_unseen_topic_restores_msgs_witness:
  "map_of (msgs (new_agent ''firm'' 0)) ''news'' = None \<and>
   get_messages first_draw ''news'' (new_agent ''firm'' 0) =
     Inr ([], (new_agent ''firm'' 0)
       \<lparr>msgs := AList.delete ''news'' (AList.update ''news'' [] (msgs (new_agent ''firm'' 0)))\<rparr>) \<and>
   AList.delete ''news'' (AList.update ''news'' [] (msgs (new_agent ''firm'' 0))) =
     msgs (new_agent ''firm'' 0)"
  using get_unseen_topic_restores_msgs [of "new_agent ''firm'' 0" "''news''" first_draw]
  by (simp add: new_agent_def init_def)

subsection \<open>Contract cancellation\<close>

text \<open>
  C10. An entry of kind \<^verbatim>\<open>'!d'\<close> whose first element is neither \<^verbatim>\<open>'r'\<close> nor \<^verbatim>\<open>'d'\<close>
  passes both tests of the branch and changes nothing: the agent after the entry is the
  agent before it (both contract tables and every topic queue included), and nothing is
  raised.
\<close>

theorem cancel_other_discriminator_noop:
  assumes "getitem msg 0 = Inr d" and "d \<noteq> Str ''r''" and "d \<noteq> Str ''d''"
  shows "clear_entry h (''!d'', msg) a = Inr a"
  using assms by (simp add: clear_entry_def clear_contract_cancel_def)

theorem cancel_other_discriminator_noop_witness:
  "getitem (Raw (Tup [Str ''x'', Str ''BRD'', Num 1])) 0 = Inr (Str ''x'') \<and>
   Str ''x'' \<noteq> Str ''r'' \<and> Str ''x'' \<noteq> Str ''d'' \<and>
   clear_entry idle_helpers (''!d'', Raw (Tup [Str ''x'', Str ''BRD'', Num 1])) (new_agent ''firm'' 0)
     = Inr (new_agent ''firm'' 0)"
  using cancel_other_discriminator_noop
    [of "Raw (Tup [Str ''x'', Str ''BRD'', Num 1])" "Str ''x''" idle_helpers "new_agent ''firm'' 0"]
  by simp

text \<open>
  C6. An entry of kind \<^verbatim>\<open>'!d'\<close> whose first element is \<^verbatim>\<open>'r'\<close> selects the pay track,
  one whose first element is \<^verbatim>\<open>'d'\<close> the deliver track. When the selected track holds the
  contract that the second and third element name, the entry removes that contract from that
  track; every other contract of the track, those of the same good included, stays as it
  was, and the other track is unchanged.
\<close>

theorem contract_cancel_removes_one:
  assumes "getitem msg 0 = Inr d" and "getitem msg 1 = Inr g" and "getitem msg 2 = Inr i"
    and "d = Str ''r'' \<or> d = Str ''d''"
    and "(if d = Str ''r'' then contracts_pay (market a) else contracts_deliver (market a)) g i = Some c"
  shows "\<exists>a'. clear_entry h (''!d'', msg) a = Inr a' \<and>
     (if d = Str ''r''
      then contracts_pay (market a') g i = None \<and>
           (\<forall>g' i'. (g', i') \<noteq> (g, i) \<longrightarrow>
              contracts_pay (market a') g' i' = contracts_pay (market a) g' i') \<and>
           contracts_deliver (market a') = contracts_deliver (market a)
      else contracts_deliver (market a') g i = None \<and>
           (\<forall>g' i'. (g', i') \<noteq> (g, i) \<longrightarrow>
              contracts_deliver (market a') g' i' = contracts_deliver (market a) g' i') \<and>
           contracts_pay (market a') = contracts_pay (market a))"
proof (cases "d = Str ''r''")
  case True
  with assms have "contracts_pay (market a) g i = Some c"
    by simp
  with True assms(1-3) show ?thesis
    by (simp add: clear_entry_def clear_contract_cancel_def del_contract_def)
next
  case False
  with assms have d: "d = Str ''d''" and "contracts_deliver (market a) g i = Some c"
    by simp_all
  with assms(1-3) show ?thesis
    by (simp add: clear_entry_def clear_contract_cancel_def del_contract_def)
qed

theorem contract_cancel_removes_one_witness:
  "getitem (Raw (Tup [Str ''r'', Str ''BRD'', Num 7])) 0 = Inr (Str ''r'') \<and>
   getitem (Raw (Tup [Str ''r'', Str ''BRD'', Num 7])) 1 = Inr (Str ''BRD'') \<and>
   getitem (Raw (Tup [Str ''r'', Str ''BRD'', Num 7])) 2 = Inr (Num 7) \<and>
   contracts_pay (market (paying_agent (bread_contract ''firm'' 0))) (Str ''BRD'') (Num 7)
      = Some (bread_contract ''firm'' 0) \<and>
   (\<exists>a'. clear_entry idle_helpers (''!d'', Raw (Tup [Str ''r'', Str ''BRD'', Num 7]))
           (paying_agent (bread_contract ''firm'' 0)) = Inr a' \<and>
        contracts_pay (market a') (Str ''BRD'') (Num 7) = None \<and>
        contracts_deliver (market a')
           = contracts_deliver (market (paying_agent (bread_contract ''firm'' 0))))"
  using contract_cancel_removes_one
    [of "Raw (Tup [Str ''r'', Str ''BRD'', Num 7])" "Str ''r''" "Str ''BRD''" "Num 7"
        "paying_agent (bread_contract ''firm'' 0)" "bread_contract ''firm'' 0" idle_helpers]
  by (auto simp add: bread_contract_def paying_agent_def new_agent_def init_def empty_market_def)

subsection \<open>Contract acceptance and settlement\<close>

text \<open>
  C2. An entry of kind \<^verbatim>\<open>'_ac'\<close> whose identifier has an entry in
  \<^verbatim>\<open>_contract_offers_made\<close> removes that entry and files the contract under its good and
  its identifier in one track: the pay track when the payer of the contract is the agent
  itself, and then the deliver track is unchanged; the deliver track otherwise, and then the
  pay track is unchanged.
\<close>

theorem contract_accept_files_once:
  assumes "attr_id msg = Inr i" and "contract_offers_made (market a) i = Some c"
  shows "\<exists>a'. clear_entry h (''_ac'', msg) a = Inr a' \<and>
     contract_offers_made (market a') = (contract_offers_made (market a))(i := None) \<and>
     (if c_pay_group c = agent_group a \<and> c_pay_id c = agent_id a
      then contracts_pay (market a') = (contracts_pay (market a))
                (c_good c := (contracts_pay (market a) (c_good c))(c_id c \<mapsto> c)) \<and>
           contracts_deliver (market a') = contracts_deliver (market a)
      else contracts_deliver (market a') = (contracts_deliver (market a))
                (c_good c := (contracts_deliver (market a) (c_good c))(c_id c \<mapsto> c)) \<and>
           contracts_pay (market a') = contracts_pay (market a))"
  using assms
  by (simp add: clear_entry_def clear_contract_accept_def file_contract_def Let_def)

theorem contract_accept_files_once_witness:
  "attr_id (Contract (bread_contract ''firm'' 0)) = Inr (Num 7) \<and>
   contract_offers_made (market (offering_agent (bread_contract ''firm'' 0))) (Num 7)
      = Some (bread_contract ''firm'' 0) \<and>
   (\<exists>a'. clear_entry idle_helpers (''_ac'', Contract (bread_contract ''firm'' 0))
           (offering_agent (bread_contract ''firm'' 0)) = Inr a' \<and>
        contract_offers_made (market a') (Num 7) = None \<and>
        contracts_pay (market a') (Str ''BRD'') (Num 7) = Some (bread_contract ''firm'' 0) \<and>
        contracts_deliver (market a') (Str ''BRD'') (Num 7) = None) \<and>
   contract_offers_made (market (offering_agent (bread_contract ''household'' 1))) (Num 7)
      = Some (bread_contract ''household'' 1) \<and>
   (\<exists>a'. clear_entry idle_helpers (''_ac'', Contract (bread_contract ''household'' 1))
           (offering_agent (bread_contract ''household'' 1)) = Inr a' \<and>
        contract_offers_made (market a') (Num 7) = None \<and>
        contracts_deliver (market a') (Str ''BRD'') (Num 7) = Some (bread_contract ''household'' 1) \<and>
        contracts_pay (market a') (Str ''BRD'') (Num 7) = None)"
  using contract_accept_files_once
    [of "Contract (bread_contract ''firm'' 0)" "Num 7" "offering_agent (bread_contract ''firm'' 0)"
        "bread_contract ''firm'' 0" idle_helpers]
    contract_accept_files_once
    [of "Contract (bread_contract ''household'' 1)" "Num 7" "offering_agent (bread_contract ''household'' 1)"
        "bread_contract ''household'' 1" idle_helpers]
  by (auto simp add: bread_contract_def offering_agent_def new_agent_def init_def empty_market_def)

text \<open>
  An entry of kind \<^verbatim>\<open>'_dp'\<close> for a contract that the selected track does not hold: the
  inventory is credited, then the lookup of the contract raises \<^verbatim>\<open>KeyError\<close>.
\<close>

lemma contract_event_unheld:
  assumes "(if c_pay_group c = agent_group a \<and> c_pay_id c = agent_id a
            then contracts_pay (market a) else contracts_deliver (market a)) (c_good c) (c_id c) = None"
  shows "clear_entry h (''_dp'', Contract c) a =
     Inl (KeyError,
          if c_pay_group c = agent_group a \<and> c_pay_id c = agent_id a
          then credit h (c_good c) (c_quantity c) a
          else credit h (Str ''money'') (number_mul h (c_quantity c) (c_price c)) a)"
  using assms
  by (cases "c_pay_group c = agent_group a"; cases "c_pay_id c = agent_id a")
     (simp_all add: clear_entry_def clear_contract_event_def credit_def Let_def)



subsection \<open>The auditor\<close>

lemma count_entries_nonzero: "count_entries d \<noteq> 0 \<longleftrightarrow> (\<exists>kv\<in>set d. snd kv \<noteq> [])"
  by (induction d) (auto simp: count_entries_def)

text \<open>
  C4. With the audit flag set, the check at the end of the round raises the fatal error, with
  the group and the number of the agent, whenever a table of open buy offers, a table of
  open sell offers or a topic queue is not empty; when all of them are empty and no offer
  that the agent made is older than the current round, it returns without an error.
\<close>

theorem auditor_raises_iff_left_over:
  assumes "check_every_round_for_lost_messages a"
  shows "((\<exists>kv\<in>set (open_offers_buy (market a)). snd kv \<noteq> []) \<or>
          (\<exists>kv\<in>set (open_offers_sell (market a)). snd kv \<noteq> []) \<or>
          (\<exists>kv\<in>set (msgs a). snd kv \<noteq> [])
          \<longrightarrow> (\<exists>k. end_of_round_check a = Inl (Fatal k (agent_group a) (agent_id a)))) \<and>
         ((\<forall>kv\<in>set (open_offers_buy (market a)). snd kv = []) \<and>
          (\<forall>kv\<in>set (open_offers_sell (market a)). snd kv = []) \<and>
          (\<forall>kv\<in>set (msgs a). snd kv = []) \<and>
          (\<forall>kv\<in>set (given_offers (market a)). \<not> o_made (snd kv) < agent_round a)
          \<longrightarrow> end_of_round_check a = Inr ())"
proof -
  have buy: "count_entries (open_offers_buy (market a)) \<noteq> 0
      \<longleftrightarrow> (\<exists>kv\<in>set (open_offers_buy (market a)). snd kv \<noteq> [])"
    by (rule count_entries_nonzero)
  have sell: "count_entries (open_offers_sell (market a)) \<noteq> 0
      \<longleftrightarrow> (\<exists>kv\<in>set (open_offers_sell (market a)). snd kv \<noteq> [])"
    by (rule count_entries_nonzero)
  have queue: "count_entries (msgs a) \<noteq> 0 \<longleftrightarrow> (\<exists>kv\<in>set (msgs a). snd kv \<noteq> [])"
    by (rule count_entries_nonzero)
  show ?thesis
    using assms buy sell queue
    by (auto simp add: end_of_round_check_def check_for_lost_messages_def list_ex_iff)
qed

theorem auditor_raises_iff_left_over_witness:
  "check_every_round_for_lost_messages unread_agent \<and>
   (\<exists>kv\<in>set (msgs unread_agent). snd kv \<noteq> []) \<and>
   (\<exists>k. end_of_round_check unread_agent = Inl (Fatal k ''firm'' 0)) \<and>
   check_every_round_for_lost_messages (new_agent ''firm'' 0) \<and>
   open_offers_buy (market (new_agent ''firm'' 0)) = [] \<and>
   open_offers_sell (market (new_agent ''firm'' 0)) = [] \<and>
   msgs (new_agent ''firm'' 0) = [] \<and>
   given_offers (market (new_agent ''firm'' 0)) = [] \<and>
   end_of_round_check (new_agent ''firm'' 0) = Inr ()"
  using auditor_raises_iff_left_over [of unread_agent]
    auditor_raises_iff_left_over [of "new_agent ''firm'' 0"]
  by (simp add: unread_agent_def new_agent_def init_def empty_market_def)

subsection \<open>Partitioned sending\<close>




subsection \<open>The clearing pass and the inbox\<close>

lemma same_mailbox_buy_offer: "same_mailbox a (clear_buy_offer msg a)"
  by (simp add: same_mailbox_def clear_buy_offer_def split: sum.splits)

lemma same_mailbox_sell_offer: "same_mailbox a (clear_sell_offer msg a)"
  by (simp add: same_mailbox_def clear_sell_offer_def split: sum.splits)

lemma same_mailbox_accept: "same_mailbox a (clear_accept h msg a)"
  by (simp add: same_mailbox_def clear_accept_def Let_def split: sum.splits prod.splits)

lemma same_mailbox_reject: "same_mailbox a (clear_reject h msg a)"
  by (simp add: same_mailbox_def clear_reject_def split: sum.splits prod.splits)

lemma same_mailbox_free_transfer: "same_mailbox a (clear_free_transfer h msg a)"
  by (simp add: same_mailbox_def clear_free_transfer_def credit_def split: sum.splits pyval.splits)

lemma same_mailbox_quote: "same_mailbox a (clear_quote msg a)"
  by (simp add: same_mailbox_def clear_quote_def split: sum.splits)

lemma same_mailbox_contract_offer: "same_mailbox a (clear_contract_offer msg a)"
  by (simp add: same_mailbox_def clear_contract_offer_def split: sum.splits)

lemma same_mailbox_contract_accept: "same_mailbox a (clear_contract_accept msg a)"
  by (simp add: same_mailbox_def clear_contract_accept_def Let_def split: sum.splits option.splits)

lemma same_mailbox_contract_event: "same_mailbox a (clear_contract_event h msg a)"
  by (simp add: same_mailbox_def clear_contract_event_def credit_def Let_def
        split: payload.splits option.splits)

lemma same_mailbox_contract_cancel: "same_mailbox a (clear_contract_cancel msg a)"
  by (simp add: same_mailbox_def clear_contract_cancel_def split: sum.splits)

lemmas same_mailbox_branches =
  same_mailbox_buy_offer same_mailbox_sell_offer same_mailbox_accept same_mailbox_reject
  same_mailbox_free_transfer same_mailbox_quote same_mailbox_contract_offer
  same_mailbox_contract_accept same_mailbox_contract_event same_mailbox_contract_cancel

lemma clear_entry_reserved:
  "typ \<in> set reserved \<Longrightarrow> same_mailbox a (clear_entry h (typ, msg) a)"
  by (auto simp add: clear_entry_def reserved_def same_mailbox_branches)

lemma clear_entry_generic:
  "typ \<notin> set reserved \<Longrightarrow> clear_entry h (typ, msg) a = Inr (file_message typ msg a)"
  by (simp add: clear_entry_def reserved_def)

lemma clear_entry_mailbox:
  "(case clear_entry h e a of
      Inl (err, a') \<Rightarrow> inbox a' = inbox a \<and> out a' = out a
    | Inr a' \<Rightarrow> inbox a' = inbox a \<and> out a' = out a)"
proof (cases e)
  case (Pair kind msg)
  show ?thesis
  proof (cases "kind \<in> set reserved")
    case True
    then have "same_mailbox a (clear_entry h (kind, msg) a)"
      by (rule clear_entry_reserved)
    with Pair show ?thesis
      by (simp add: same_mailbox_def split: sum.splits prod.splits)
  next
    case False
    then have "clear_entry h (kind, msg) a = Inr (file_message kind msg a)"
      by (rule clear_entry_generic)
    with Pair show ?thesis
      by (simp add: file_message_def)
  qed
qed

lemma clear_entry_inbox: "clear_entry h e a = Inr a' \<Longrightarrow> inbox a' = inbox a"
  using clear_entry_mailbox [where h = h and e = e and a = a] by simp

lemma clear_entry_raise_inbox: "clear_entry h e a = Inl (err, a') \<Longrightarrow> inbox a' = inbox a"
  using clear_entry_mailbox [where h = h and e = e and a = a] by simp

lemma clear_loop_inbox: "clear_loop h es a = Inr a' \<Longrightarrow> inbox a' = inbox a"
  by (induction es arbitrary: a) (auto split: sum.splits dest: clear_entry_inbox)

lemma clear_loop_raise_inbox: "clear_loop h es a = Inl (err, a') \<Longrightarrow> inbox a' = inbox a"
proof (induction es arbitrary: a)
  case Nil
  then show ?case by simp
next
  case (Cons e es)
  show ?case
  proof (cases "clear_entry h e a")
    case (Inl x)
    with Cons.prems show ?thesis
      by (simp add: clear_entry_raise_inbox)
  next
    case (Inr a1)
    with Cons.prems have "clear_loop h es a1 = Inl (err, a')"
      by simp
    then have "inbox a' = inbox a1"
      by (rule Cons.IH)
    with Inr show ?thesis
      by (simp add: clear_entry_inbox)
  qed
qed

text \<open>
  The states that the loop passes through: the state before each entry, and the state that
  the last entry leaves.
\<close>

lemma clear_loop_returns_trace:
  "clear_loop h es a = Inr a' \<Longrightarrow>
   \<exists>ss. length ss = Suc (length es) \<and> ss ! 0 = a \<and> last ss = a' \<and>
        (\<forall>k<length es. clear_entry h (es ! k) (ss ! k) = Inr (ss ! Suc k))"
proof (induction es arbitrary: a)
  case Nil
  then show ?case
    by (intro exI [of _ "[a]"]) simp
next
  case (Cons e es)
  from Cons.prems obtain a1 where e: "clear_entry h e a = Inr a1"
    and rest: "clear_loop h es a1 = Inr a'"
    by (auto split: sum.splits)
  from Cons.IH [OF rest] obtain ss where ss: "length ss = Suc (length es)" "ss ! 0 = a1"
    "last ss = a'" "\<forall>k<length es. clear_entry h (es ! k) (ss ! k) = Inr (ss ! Suc k)"
    by blast
  have "\<forall>k<length (e # es). clear_entry h ((e # es) ! k) ((a # ss) ! k) = Inr ((a # ss) ! Suc k)"
  proof (intro allI impI)
    fix k assume k: "k < length (e # es)"
    show "clear_entry h ((e # es) ! k) ((a # ss) ! k) = Inr ((a # ss) ! Suc k)"
    proof (cases k)
      case 0
      with e ss(2) show ?thesis by simp
    next
      case (Suc j)
      with k ss(4) show ?thesis by simp
    qed
  qed
  moreover from ss(1) have "ss \<noteq> []" by auto
  ultimately show ?case
    using ss by (intro exI [of _ "a # ss"]) simp
qed

lemma clear_loop_raises_trace:
  "clear_loop h es a = Inl (err, a') \<Longrightarrow>
   \<exists>k ss. k < length es \<and> length ss = Suc k \<and> ss ! 0 = a \<and>
        (\<forall>j<k. clear_entry h (es ! j) (ss ! j) = Inr (ss ! Suc j)) \<and>
        clear_entry h (es ! k) (ss ! k) = Inl (err, a')"
proof (induction es arbitrary: a)
  case Nil
  then show ?case by simp
next
  case (Cons e es)
  show ?case
  proof (cases "clear_entry h e a")
    case (Inl x)
    with Cons.prems have "clear_entry h e a = Inl (err, a')"
      by simp
    then show ?thesis
      by (intro exI [of _ 0] exI [of _ "[a]"]) simp
  next
    case (Inr a1)
    with Cons.prems have "clear_loop h es a1 = Inl (err, a')"
      by simp
    from Cons.IH [OF this] obtain k ss where k: "k < length es" and ss: "length ss = Suc k"
      "ss ! 0 = a1" "\<forall>j<k. clear_entry h (es ! j) (ss ! j) = Inr (ss ! Suc j)"
      "clear_entry h (es ! k) (ss ! k) = Inl (err, a')"
      by blast
    have "\<forall>j<Suc k. clear_entry h ((e # es) ! j) ((a # ss) ! j) = Inr ((a # ss) ! Suc j)"
    proof (intro allI impI)
      fix j assume j: "j < Suc k"
      show "clear_entry h ((e # es) ! j) ((a # ss) ! j) = Inr ((a # ss) ! Suc j)"
      proof (cases j)
        case 0
        with Inr ss(2) show ?thesis by simp
      next
        case (Suc i)
        with j ss(3) show ?thesis by simp
      qed
    qed
    with k ss show ?thesis
      by (intro exI [of _ "Suc k"] exI [of _ "a # ss"]) simp
  qed
qed

text \<open>
  C5, as the claim states it, fails. The claim: for every starting inbox the clearing pass
  processes every entry and leaves the inbox empty, whichever branches are taken. The
  statement \<^verbatim>\<open>self.inbox.clear()\<close> follows the loop and is not protected by
  \<^verbatim>\<open>finally\<close>. An agent that holds no contract and finds in its inbox first the
  cancellation \<^verbatim>\<open>('r', 'BRD', 7)\<close> and then a message: \<^verbatim>\<open>del\<close> raises
  \<^verbatim>\<open>KeyError\<close> at the first entry, the pass ends there, the inbox still holds both entries
  and the message has not been filed.
\<close>

theorem clearing_raise_keeps_inbox_counterexample:
  "do_message_clearing idle_helpers stuck_agent = Inl (KeyError, stuck_agent) \<and>
   inbox stuck_agent =
     [(''!d'', Raw (Tup [Str ''r'', Str ''BRD'', Num 7])),
      (''m'', hello (''household'', 1) (''firm'', 0))] \<and>
   msgs stuck_agent = []"
  by (simp add: do_message_clearing_def clear_entry_def clear_contract_cancel_def
        del_contract_def stuck_agent_def new_agent_def init_def empty_market_def)

text \<open>
  C5, amended. The pass takes the entries in the order of their arrival, each one once and
  each from the state that the entry before it left. Either no entry raises: then the pass
  returns, and the inbox of the agent it returns is empty. Or the entry at some position
  \<open>k\<close> raises after the \<open>k\<close> entries before it have been processed: then the pass ends
  with that exception, no later entry is processed, and the inbox is not cleared, it holds
  every entry that it held at the start.
\<close>

theorem clearing_pass_outcome:
  "(\<exists>ss. length ss = Suc (length (inbox a)) \<and> ss ! 0 = a \<and>
        (\<forall>k<length (inbox a). clear_entry h (inbox a ! k) (ss ! k) = Inr (ss ! Suc k)) \<and>
        do_message_clearing h a = Inr ((last ss)\<lparr>inbox := []\<rparr>) \<and>
        inbox ((last ss)\<lparr>inbox := []\<rparr>) = [])
   \<or>
   (\<exists>k ss err a'. k < length (inbox a) \<and> length ss = Suc k \<and> ss ! 0 = a \<and>
        (\<forall>j<k. clear_entry h (inbox a ! j) (ss ! j) = Inr (ss ! Suc j)) \<and>
        clear_entry h (inbox a ! k) (ss ! k) = Inl (err, a') \<and>
        do_message_clearing h a = Inl (err, a') \<and> inbox a' = inbox a)"
proof (cases "clear_loop h (inbox a) a")
  case (Inr a1)
  from clear_loop_returns_trace [OF this] obtain ss where
    "length ss = Suc (length (inbox a))" "ss ! 0 = a" "last ss = a1"
    "\<forall>k<length (inbox a). clear_entry h (inbox a ! k) (ss ! k) = Inr (ss ! Suc k)"
    by blast
  with Inr show ?thesis
    by (intro disjI1 exI [of _ ss]) (simp add: do_message_clearing_def)
next
  case (Inl x)
  obtain err a' where x: "x = (err, a')" by (cases x)
  from Inl x have loop: "clear_loop h (inbox a) a = Inl (err, a')"
    by simp
  from clear_loop_raises_trace [OF loop] obtain k ss where
    "k < length (inbox a)" "length ss = Suc k" "ss ! 0 = a"
    "\<forall>j<k. clear_entry h (inbox a ! j) (ss ! j) = Inr (ss ! Suc j)"
    "clear_entry h (inbox a ! k) (ss ! k) = Inl (err, a')"
    by blast
  moreover from loop have "inbox a' = inbox a"
    by (rule clear_loop_raise_inbox)
  moreover from loop have "do_message_clearing h a = Inl (err, a')"
    by (simp add: do_message_clearing_def)
  ultimately show ?thesis
    by (intro disjI2 exI [of _ k] exI [of _ ss] exI [of _ err] exI [of _ a']) simp
qed

lemma busy_agent_returns:
  "do_message_clearing idle_helpers busy_agent =
     Inr ((new_agent ''firm'' 0)
       \<lparr>msgs := [(''m'', [hello (''household'', 1) (''firm'', 0),
                          hello (''household'', 2) (''firm'', 0)])]\<rparr>)"
  by (simp add: do_message_clearing_def clear_entry_def file_message_def
        busy_agent_def new_agent_def init_def)

theorem clearing_pass_outcome_witness:
  "\<exists>ss. length ss = 3 \<and> ss ! 0 = busy_agent \<and>
      clear_entry idle_helpers (''m'', hello (''household'', 1) (''firm'', 0)) (ss ! 0) = Inr (ss ! 1) \<and>
      clear_entry idle_helpers (''m'', hello (''household'', 2) (''firm'', 0)) (ss ! 1) = Inr (ss ! 2) \<and>
      do_message_clearing idle_helpers busy_agent = Inr ((ss ! 2)\<lparr>inbox := []\<rparr>) \<and>
      inbox ((ss ! 2)\<lparr>inbox := []\<rparr>) = []"
proof -
  have len: "length (inbox busy_agent) = 2"
    and e0: "inbox busy_agent ! 0 = (''m'', hello (''household'', 1) (''firm'', 0))"
    and e1: "inbox busy_agent ! 1 = (''m'', hello (''household'', 2) (''firm'', 0))"
    by (simp_all add: busy_agent_def)
  from clearing_pass_outcome [of busy_agent idle_helpers] busy_agent_returns
  obtain ss where ss: "length ss = Suc (length (inbox busy_agent))" "ss ! 0 = busy_agent"
    "\<forall>k<length (inbox busy_agent). clear_entry idle_helpers (inbox busy_agent ! k) (ss ! k) = Inr (ss ! Suc k)"
    "do_message_clearing idle_helpers busy_agent = Inr ((last ss)\<lparr>inbox := []\<rparr>)"
    by auto
  from ss(3) len
  have s0: "clear_entry idle_helpers (inbox busy_agent ! 0) (ss ! 0) = Inr (ss ! Suc 0)"
    and s1: "clear_entry idle_helpers (inbox busy_agent ! Suc 0) (ss ! Suc 0) = Inr (ss ! Suc (Suc 0))"
    by simp_all
  from ss(1) len have "ss \<noteq> []" and "length ss - 1 = 2"
    by auto
  then have l: "last ss = ss ! 2"
    by (simp add: last_conv_nth)
  from ss(1) len have n: "length ss = 3"
    by simp
  show ?thesis
    using s0 s1 l n ss(2,4) e0 e1 by (intro exI [of _ ss]) (simp add: numeral_2_eq_2)
qed

subsection \<open>From \<^verbatim>\<open>send\<close> to \<^verbatim>\<open>get_messages\<close>\<close>

text \<open>The shuffle permutes.\<close>

lemma mset_shuffle_from: "i < length xs \<Longrightarrow> mset (shuffle_from rnd i xs) = mset xs"
proof (induction i arbitrary: xs)
  case 0
  then show ?case by simp
next
  case (Suc i)
  let ?j = "rnd (Suc i) mod (Suc i + 1)"
  have "?j < Suc i + 1"
    by (rule mod_less_divisor) simp
  with Suc.prems have j: "?j < length xs"
    by linarith
  have "mset (xs[Suc i := xs ! ?j, ?j := xs ! Suc i]) = mset xs"
    using Suc.prems j by (simp add: mset_swap)
  moreover have "i < length (xs[Suc i := xs ! ?j, ?j := xs ! Suc i])"
    using Suc.prems by simp
  ultimately show ?case
    using Suc.IH [of "xs[Suc i := xs ! ?j, ?j := xs ! Suc i]"] by (simp add: Let_def)
qed

lemma mset_shuffle: "mset (shuffle rnd xs) = mset xs"
proof (cases xs)
  case Nil
  then show ?thesis by (simp add: shuffle_def)
next
  case (Cons x ys)
  then show ?thesis by (simp add: shuffle_def mset_shuffle_from)
qed


text \<open>
  Retrieval returns the queue of the topic, shuffled, and leaves no entry for the topic.
\<close>

lemma get_messages_queue:
  "\<exists>a'. get_messages rnd tpc a = Inr (shuffle rnd (queue tpc a), a') \<and> map_of (msgs a') tpc = None"
proof (cases "map_of (msgs a) tpc")
  case None
  then have "get_messages rnd tpc a = Inr ([], a)"
    by (rule get_messages_unseen)
  with None show ?thesis
    by (simp add: queue_def shuffle_def)
next
  case (Some xs)
  then show ?thesis
    by (simp add: get_messages_def dict_getitem_def queue_def update_conv' delete_conv')
qed

text \<open>
  The clearing pass appends the entries of a kind that is not reserved to the queue of that
  kind, in the order of their arrival, and leaves the queue alone at every other entry.
\<close>

lemma queue_file_message:
  "queue tpc (file_message kind msg a) = queue tpc a @ (if kind = tpc then [msg] else [])"
  by (simp add: queue_def file_message_def update_conv')

lemma clear_entry_queue:
  assumes "tpc \<notin> set reserved" and "clear_entry h (kind, msg) a = Inr a'"
  shows "queue tpc a' = queue tpc a @ (if kind = tpc then [msg] else [])"
proof (cases "kind \<in> set reserved")
  case True
  then have "same_mailbox a (clear_entry h (kind, msg) a)"
    by (rule clear_entry_reserved)
  with assms(2) have "msgs a' = msgs a"
    by (simp add: same_mailbox_def)
  moreover from True assms(1) have "kind \<noteq> tpc"
    by auto
  ultimately show ?thesis
    by (simp add: queue_def)
next
  case False
  then have "clear_entry h (kind, msg) a = Inr (file_message kind msg a)"
    by (rule clear_entry_generic)
  with assms(2) have "a' = file_message kind msg a"
    by simp
  then show ?thesis
    by (simp add: queue_file_message)
qed

lemma clear_loop_queue:
  assumes "tpc \<notin> set reserved"
  shows "clear_loop h es a = Inr a' \<Longrightarrow>
         queue tpc a' = queue tpc a @ map snd (filter (\<lambda>e. fst e = tpc) es)"
proof (induction es arbitrary: a)
  case Nil
  then show ?case by simp
next
  case (Cons e es)
  obtain kind msg where e: "e = (kind, msg)" by (cases e)
  from Cons.prems obtain a1 where step: "clear_entry h e a = Inr a1"
    and rest: "clear_loop h es a1 = Inr a'"
    by (auto split: sum.splits)
  from step e assms have "queue tpc a1 = queue tpc a @ (if kind = tpc then [msg] else [])"
    by (simp add: clear_entry_queue)
  moreover from rest have "queue tpc a' = queue tpc a1 @ map snd (filter (\<lambda>e. fst e = tpc) es)"
    by (rule Cons.IH)
  ultimately show ?case
    using e by simp
qed

lemma do_message_clearing_queue:
  assumes "tpc \<notin> set reserved" and "do_message_clearing h a = Inr a'"
  shows "queue tpc a' = queue tpc a @ map snd (filter (\<lambda>e. fst e = tpc) (inbox a))"
proof -
  from assms(2) obtain a1 where loop: "clear_loop h (inbox a) a = Inr a1"
    and a': "a' = a1\<lparr>inbox := []\<rparr>"
    by (auto simp add: do_message_clearing_def split: sum.splits)
  from clear_loop_queue [OF assms(1) loop] a' show ?thesis
    by (simp add: queue_def)
qed


text \<open>The send phase appends to the outbox of each sender what it sends, in order.\<close>

lemma send_appends:
  assumes "send rcv tpc cnt a = Inr a'"
  shows "\<exists>es. out a = OutList es \<and>
     a' = a\<lparr>out := OutList (es @ [(rcv, (tpc, envelope_of (name a, rcv, tpc, cnt)))])\<rparr>"
  using assms
  by (auto simp add: send_def send_direct_def envelope_of_def split: outbox.splits)

lemma outgoing_Cons:
  "outgoing n ((s, rcv, tpc, cnt) # rest) =
     (if s = n then (rcv, (tpc, envelope_of (s, rcv, tpc, cnt))) # outgoing n rest
      else outgoing n rest)"
  by (simp add: outgoing_def)

lemma lists_onlyD:
  "lists_only ag \<Longrightarrow> ag n = Some b \<Longrightarrow> name b = n \<and> (\<exists>es. out b = OutList es)"
  unfolding lists_only_def by blast

lemma lists_onlyI:
  "(\<And>n b. ag n = Some b \<Longrightarrow> name b = n \<and> (\<exists>es. out b = OutList es)) \<Longrightarrow> lists_only ag"
  unfolding lists_only_def by blast

lemma send_phase_lists_only:
  "lists_only ag \<Longrightarrow> send_phase sends ag = Inr ag1 \<Longrightarrow> lists_only ag1"
proof (induction sends arbitrary: ag)
  case Nil
  then show ?case by simp
next
  case (Cons x rest)
  obtain s rcv tpc cnt where x: "x = (s, rcv, tpc, cnt)"
    by (cases x)
  from Cons.prems(2) x obtain a a' where a: "ag s = Some a"
    and sent: "send rcv tpc cnt a = Inr a'"
    and rest: "send_phase rest (ag(s \<mapsto> a')) = Inr ag1"
    by (auto split: option.splits sum.splits)
  from send_appends [OF sent] obtain es where
    a': "a' = a\<lparr>out := OutList (es @ [(rcv, (tpc, envelope_of (name a, rcv, tpc, cnt)))])\<rparr>"
    by auto
  have "lists_only (ag(s \<mapsto> a'))"
  proof (rule lists_onlyI)
    fix n b assume nb: "(ag(s \<mapsto> a')) n = Some b"
    show "name b = n \<and> (\<exists>es. out b = OutList es)"
    proof (cases "n = s")
      case True
      with nb a' lists_onlyD [OF Cons.prems(1) a] show ?thesis by auto
    next
      case False
      with nb lists_onlyD [OF Cons.prems(1), of n b] show ?thesis by simp
    qed
  qed
  then show ?case
    using rest by (rule Cons.IH)
qed

lemma send_phase_outboxes:
  "lists_only ag \<Longrightarrow> send_phase sends ag = Inr ag1 \<Longrightarrow>
   ag1 n = map_option (\<lambda>b. b\<lparr>out := OutList (out_list (out b) @ outgoing n sends)\<rparr>) (ag n)"
proof (induction sends arbitrary: ag)
  case Nil
  show ?case
  proof (cases "ag n")
    case None
    with Nil show ?thesis by simp
  next
    case (Some b)
    with lists_onlyD [OF Nil.prems(1) Some] obtain es where "out b = OutList es"
      by auto
    with Some Nil.prems(2) show ?thesis
      by (simp add: outgoing_def)
  qed
next
  case (Cons x rest)
  obtain s rcv tpc cnt where x: "x = (s, rcv, tpc, cnt)"
    by (cases x)
  from Cons.prems(2) x obtain a a' where a: "ag s = Some a"
    and sent: "send rcv tpc cnt a = Inr a'"
    and rest: "send_phase rest (ag(s \<mapsto> a')) = Inr ag1"
    by (auto split: option.splits sum.splits)
  from lists_onlyD [OF Cons.prems(1) a] have nm: "name a = s"
    by simp
  from send_appends [OF sent] nm obtain es where es: "out a = OutList es"
    and a': "a' = a\<lparr>out := OutList (es @ [(rcv, (tpc, envelope_of (s, rcv, tpc, cnt)))])\<rparr>"
    by auto
  have "send_phase (x # rest) ag = Inr ag1 \<Longrightarrow> send_phase [x] ag = Inr (ag(s \<mapsto> a'))"
    using x a sent by simp
  then have "lists_only (ag(s \<mapsto> a'))"
    using Cons.prems send_phase_lists_only by blast
  from Cons.IH [OF this rest]
  have ih: "ag1 n = map_option (\<lambda>b. b\<lparr>out := OutList (out_list (out b) @ outgoing n rest)\<rparr>)
                ((ag(s \<mapsto> a')) n)" .
  show ?case
  proof (cases "n = s")
    case True
    with ih a a' es x show ?thesis
      by (simp add: outgoing_Cons)
  next
    case False
    with ih x show ?thesis
      by (simp add: outgoing_Cons)
  qed
qed

text \<open>
  A delivery pass appends to each inbox the entries addressed to it, sender by sender, and
  empties the outbox of every sender.
\<close>

lemma addressed_Cons:
  "addressed n ((nm, envelope) # es) = (if nm = n then envelope # addressed n es else addressed n es)"
  by (simp add: addressed_def)

lemma post_loop_inboxes:
  "post_loop es ag = Inr ag' \<Longrightarrow>
   ag' n = map_option (\<lambda>b. b\<lparr>inbox := inbox b @ addressed n es\<rparr>) (ag n)"
proof (induction es arbitrary: ag)
  case Nil
  then show ?case
    by (simp add: addressed_def option.map_ident)
next
  case (Cons x es)
  obtain nm envelope where x: "x = (nm, envelope)"
    by (cases x)
  from Cons.prems x obtain r where r: "ag nm = Some r"
    and rest: "post_loop es (ag(nm \<mapsto> r\<lparr>inbox := inbox r @ [envelope]\<rparr>)) = Inr ag'"
    by (auto split: option.splits)
  from Cons.IH [OF rest]
  have ih: "ag' n = map_option (\<lambda>b. b\<lparr>inbox := inbox b @ addressed n es\<rparr>)
                ((ag(nm \<mapsto> r\<lparr>inbox := inbox r @ [envelope]\<rparr>)) n)" .
  show ?case
  proof (cases "n = nm")
    case True
    with ih r x show ?thesis
      by (simp add: addressed_Cons)
  next
    case False
    with ih x show ?thesis
      by (simp add: addressed_Cons)
  qed
qed

lemma post_messages_effect:
  assumes "post_messages me ag = Inr ag'" and "ag me = Some b" and "out b = OutList es"
  shows "ag' n = map_option
           (\<lambda>c. c\<lparr>inbox := inbox c @ addressed n es,
                   out := (if n = me then OutList [] else out c)\<rparr>) (ag n)"
proof -
  from assms obtain ag1 self1 where loop: "post_loop es ag = Inr ag1"
    and self1: "ag1 me = Some self1" and ag': "ag' = ag1(me \<mapsto> self1\<lparr>out := OutList []\<rparr>)"
    by (auto simp add: post_messages_def split: sum.splits option.splits)
  have inb: "ag1 m = map_option (\<lambda>b. b\<lparr>inbox := inbox b @ addressed m es\<rparr>) (ag m)" for m
    using loop by (rule post_loop_inboxes)
  show ?thesis
  proof (cases "n = me")
    case True
    with inb [of me] self1 ag' assms(2) show ?thesis
      by auto
  next
    case False
    with inb [of n] ag' show ?thesis
      by (cases "ag n") simp_all
  qed
qed


lemma post_messages_registered:
  "post_messages me ag = Inr ag' \<Longrightarrow> \<exists>b. ag me = Some b"
  by (cases "ag me") (simp_all add: post_messages_def)

lemma delivery_phase_inboxes:
  "lists_only ag \<Longrightarrow> distinct names \<Longrightarrow> delivery_phase names ag = Inr ag' \<Longrightarrow>
   ag' n = map_option
     (\<lambda>c. c\<lparr>inbox := inbox c @ concat (map (\<lambda>m. addressed n (outbox_of ag m)) names),
             out := (if n \<in> set names then OutList [] else out c)\<rparr>) (ag n)"
proof (induction names arbitrary: ag)
  case Nil
  then show ?case
    by (simp add: option.map_ident)
next
  case (Cons me rest)
  from Cons.prems(3) obtain ag1 where post: "post_messages me ag = Inr ag1"
    and deliver: "delivery_phase rest ag1 = Inr ag'"
    by (auto split: sum.splits)
  from post_messages_registered [OF post] obtain b where b: "ag me = Some b"
    by blast
  from lists_onlyD [OF Cons.prems(1) b] obtain es where es: "out b = OutList es"
    by blast
  have step: "ag1 m = map_option
           (\<lambda>c. c\<lparr>inbox := inbox c @ addressed m es,
                   out := (if m = me then OutList [] else out c)\<rparr>) (ag m)" for m
    using post b es by (rule post_messages_effect)
  have wf1: "lists_only ag1"
  proof (rule lists_onlyI)
    fix m c1 assume "ag1 m = Some c1"
    with step [of m] obtain c where c: "ag m = Some c"
      and c1: "c1 = c\<lparr>inbox := inbox c @ addressed m es,
                        out := (if m = me then OutList [] else out c)\<rparr>"
      by (cases "ag m") auto
    from lists_onlyD [OF Cons.prems(1) c] c1
    show "name c1 = m \<and> (\<exists>es. out c1 = OutList es)"
      by auto
  qed
  from Cons.prems(2) have dist: "distinct rest" and fresh: "me \<notin> set rest"
    by simp_all
  have same: "outbox_of ag1 m = outbox_of ag m" if "m \<noteq> me" for m
    using step [of m] that by (cases "ag m") (simp_all add: outbox_of_def)
  have "map (\<lambda>m. addressed n (outbox_of ag1 m)) rest = map (\<lambda>m. addressed n (outbox_of ag m)) rest"
  proof (rule map_cong [OF refl])
    fix m assume "m \<in> set rest"
    with fresh have "m \<noteq> me" by auto
    then show "addressed n (outbox_of ag1 m) = addressed n (outbox_of ag m)"
      by (simp add: same)
  qed
  with Cons.IH [OF wf1 dist deliver]
  have ih: "ag' n = map_option
     (\<lambda>c. c\<lparr>inbox := inbox c @ concat (map (\<lambda>m. addressed n (outbox_of ag m)) rest),
             out := (if n \<in> set rest then OutList [] else out c)\<rparr>) (ag1 n)"
    by simp
  have me: "outbox_of ag me = es"
    using b es by (simp add: outbox_of_def)
  show ?case
  proof (cases "ag n")
    case None
    with ih step [of n] show ?thesis by simp
  next
    case (Some c)
    with ih step [of n] me show ?thesis by simp
  qed
qed

text \<open>What arrives under a topic is, as a multiset, what was sent under it.\<close>

lemma addressed_outgoing:
  "map snd (filter (\<lambda>e. fst e = tpc) (addressed rcv (outgoing m sends)))
     = sent_to rcv tpc (filter (\<lambda>x. fst x = m) sends)"
  by (induction sends) (auto simp add: addressed_def outgoing_def sent_to_def)

lemma sent_to_split:
  "m \<notin> set rest \<Longrightarrow>
   mset (sent_to rcv tpc (filter (\<lambda>x. fst x = m) sends)) +
   mset (sent_to rcv tpc (filter (\<lambda>x. fst x \<in> set rest) sends))
     = mset (sent_to rcv tpc (filter (\<lambda>x. fst x \<in> set (m # rest)) sends))"
proof (induction sends)
  case Nil
  show ?case by (simp add: sent_to_def)
next
  case (Cons x sends)
  have cons: "sent_to rcv tpc (x # ys) =
      (if fst (snd x) = rcv \<and> fst (snd (snd x)) = tpc then envelope_of x # sent_to rcv tpc ys
       else sent_to rcv tpc ys)" for ys
    by (simp add: sent_to_def)
  from Cons show ?case
    by (cases "fst x = m"; cases "fst x \<in> set rest") (simp_all add: cons del: mset_filter mset_map)
qed

lemma sent_to_by_sender:
  "distinct names \<Longrightarrow>
   mset (concat (map (\<lambda>m. sent_to rcv tpc (filter (\<lambda>x. fst x = m) sends)) names))
     = mset (sent_to rcv tpc (filter (\<lambda>x. fst x \<in> set names) sends))"
proof (induction names)
  case Nil
  then show ?case by (simp add: sent_to_def)
next
  case (Cons m rest)
  then have "mset (concat (map (\<lambda>m. sent_to rcv tpc (filter (\<lambda>x. fst x = m) sends)) rest))
     = mset (sent_to rcv tpc (filter (\<lambda>x. fst x \<in> set rest) sends))"
    by simp
  moreover from Cons.prems have "m \<notin> set rest" by simp
  ultimately show ?case
    using sent_to_split [of m rest rcv tpc sends] by simp
qed

lemma arrivals_are_sent:
  assumes "distinct names" and "fst ` set sends \<subseteq> set names"
  shows "mset (map snd (filter (\<lambda>e. fst e = tpc)
            (concat (map (\<lambda>m. addressed rcv (outgoing m sends)) names))))
         = mset (sent_to rcv tpc sends)"
proof -
  have "map snd (filter (\<lambda>e. fst e = tpc) (concat (map (\<lambda>m. addressed rcv (outgoing m sends)) names)))
      = concat (map (\<lambda>m. sent_to rcv tpc (filter (\<lambda>x. fst x = m) sends)) names)"
    by (simp add: filter_concat map_concat comp_def addressed_outgoing)
  moreover from assms(2) have "filter (\<lambda>x. fst x \<in> set names) sends = sends"
    by (auto simp add: filter_id_conv)
  ultimately show ?thesis
    using sent_to_by_sender [OF assms(1), of rcv tpc sends] by simp
qed


text \<open>Only a registered agent sends.\<close>

lemma send_phase_senders:
  "send_phase sends ag = Inr ag1 \<Longrightarrow> ag n = None \<Longrightarrow> outgoing n sends = []"
proof (induction sends arbitrary: ag)
  case Nil
  show ?case by (simp add: outgoing_def)
next
  case (Cons x rest)
  obtain s rcv tpc cnt where x: "x = (s, rcv, tpc, cnt)"
    by (cases x)
  from Cons.prems(1) x obtain a a' where a: "ag s = Some a"
    and rest: "send_phase rest (ag(s \<mapsto> a')) = Inr ag1"
    by (auto split: option.splits sum.splits)
  from a Cons.prems(2) have ne: "n \<noteq> s"
    by auto
  with Cons.prems(2) have "(ag(s \<mapsto> a')) n = None"
    by simp
  with rest have "outgoing n rest = []"
    by (rule Cons.IH)
  with ne x show ?case
    by (simp add: outgoing_Cons)
qed

text \<open>
  Each phase returns when it has what it needs: registered senders and receivers, outboxes in
  direct mode, and, for the clearing pass, entries of kinds that are not reserved. So a round
  in which registered agents send ordinary messages to the receiver raises nothing.
\<close>

lemma send_phase_returns:
  "lists_only ag \<Longrightarrow> (\<And>x. x \<in> set sends \<Longrightarrow> ag (fst x) \<noteq> None) \<Longrightarrow>
   \<exists>ag1. send_phase sends ag = Inr ag1"
proof (induction sends arbitrary: ag)
  case Nil
  show ?case by simp
next
  case (Cons x rest)
  obtain s rcv tpc cnt where x: "x = (s, rcv, tpc, cnt)"
    by (cases x)
  from Cons.prems(2) [of x] x obtain a where a: "ag s = Some a"
    by auto
  from lists_onlyD [OF Cons.prems(1) a] obtain es where es: "out a = OutList es"
    by blast
  define a' where "a' = a\<lparr>out := OutList (es @ [(rcv, (tpc, envelope_of (name a, rcv, tpc, cnt)))])\<rparr>"
  have sent: "send rcv tpc cnt a = Inr a'"
    using es by (simp add: send_def send_direct_def envelope_of_def a'_def)
  have one: "send_phase [x] ag = Inr (ag(s \<mapsto> a'))"
    using x a sent by simp
  have wf: "lists_only (ag(s \<mapsto> a'))"
    using Cons.prems(1) one by (rule send_phase_lists_only)
  have reg: "(ag(s \<mapsto> a')) (fst y) \<noteq> None" if "y \<in> set rest" for y
    using Cons.prems(2) [of y] that by simp
  have "\<exists>ag1. send_phase rest (ag(s \<mapsto> a')) = Inr ag1"
    using wf reg by (rule Cons.IH)
  with x a sent show ?case
    by simp
qed

lemma post_loop_returns:
  "(\<And>x. x \<in> set es \<Longrightarrow> ag (fst x) \<noteq> None) \<Longrightarrow> \<exists>ag'. post_loop es ag = Inr ag'"
proof (induction es arbitrary: ag)
  case Nil
  show ?case by simp
next
  case (Cons x es)
  obtain nm envelope where x: "x = (nm, envelope)"
    by (cases x)
  from Cons.prems [of x] x obtain r where r: "ag nm = Some r"
    by auto
  have "(ag(nm \<mapsto> r\<lparr>inbox := inbox r @ [envelope]\<rparr>)) (fst y) \<noteq> None" if "y \<in> set es" for y
    using Cons.prems [of y] that by simp
  then have "\<exists>ag'. post_loop es (ag(nm \<mapsto> r\<lparr>inbox := inbox r @ [envelope]\<rparr>)) = Inr ag'"
    by (rule Cons.IH)
  with x r show ?case
    by simp
qed

lemma post_messages_returns:
  assumes "ag me = Some b" and "out b = OutList es"
    and "\<And>x. x \<in> set es \<Longrightarrow> ag (fst x) \<noteq> None"
  shows "\<exists>ag'. post_messages me ag = Inr ag'"
proof -
  from post_loop_returns [of es ag] assms(3) obtain ag1 where loop: "post_loop es ag = Inr ag1"
    by blast
  from post_loop_inboxes [OF loop, of me] assms(1) obtain self1 where "ag1 me = Some self1"
    by simp
  with assms(1,2) loop show ?thesis
    by (simp add: post_messages_def)
qed

lemma delivery_phase_returns:
  "lists_only ag \<Longrightarrow> deliverable ag \<Longrightarrow> (\<And>m. m \<in> set names \<Longrightarrow> ag m \<noteq> None) \<Longrightarrow>
   \<exists>ag'. delivery_phase names ag = Inr ag'"
proof (induction names arbitrary: ag)
  case Nil
  show ?case by simp
next
  case (Cons me rest)
  from Cons.prems(3) [of me] obtain b where b: "ag me = Some b"
    by auto
  from lists_onlyD [OF Cons.prems(1) b] obtain es where es: "out b = OutList es"
    by blast
  have me: "outbox_of ag me = es"
    using b es by (simp add: outbox_of_def)
  have "ag (fst x) \<noteq> None" if "x \<in> set es" for x
    using Cons.prems(2) that me unfolding deliverable_def by blast
  with b es have "\<exists>ag1. post_messages me ag = Inr ag1"
    by (rule post_messages_returns)
  then obtain ag1 where post: "post_messages me ag = Inr ag1"
    by blast
  have step: "ag1 m = map_option
           (\<lambda>c. c\<lparr>inbox := inbox c @ addressed m es,
                   out := (if m = me then OutList [] else out c)\<rparr>) (ag m)" for m
    using post b es by (rule post_messages_effect)
  have wf1: "lists_only ag1"
  proof (rule lists_onlyI)
    fix m c1 assume "ag1 m = Some c1"
    with step [of m] obtain c where c: "ag m = Some c"
      and c1: "c1 = c\<lparr>inbox := inbox c @ addressed m es,
                        out := (if m = me then OutList [] else out c)\<rparr>"
      by (cases "ag m") auto
    from lists_onlyD [OF Cons.prems(1) c] c1
    show "name c1 = m \<and> (\<exists>es. out c1 = OutList es)"
      by auto
  qed
  have dom1: "ag1 m \<noteq> None" if "ag m \<noteq> None" for m
    using step [of m] that by simp
  have sub: "set (outbox_of ag1 m) \<subseteq> set (outbox_of ag m)" for m
    using step [of m] by (cases "ag m") (auto simp add: outbox_of_def)
  have "deliverable ag1"
    unfolding deliverable_def
  proof (intro allI impI)
    fix m x assume "x \<in> set (outbox_of ag1 m)"
    with sub [of m] have "x \<in> set (outbox_of ag m)"
      by blast
    with Cons.prems(2) have "ag (fst x) \<noteq> None"
      unfolding deliverable_def by blast
    then show "ag1 (fst x) \<noteq> None"
      by (rule dom1)
  qed
  moreover have "ag1 m \<noteq> None" if "m \<in> set rest" for m
    using Cons.prems(3) [of m] that by (simp add: dom1)
  ultimately have "\<exists>ag'. delivery_phase rest ag1 = Inr ag'"
    using wf1 by (intro Cons.IH)
  with post show ?case
    by simp
qed

lemma clear_loop_generic_returns:
  "(\<And>e. e \<in> set es \<Longrightarrow> fst e \<notin> set reserved) \<Longrightarrow> \<exists>a'. clear_loop h es a = Inr a'"
proof (induction es arbitrary: a)
  case Nil
  show ?case by simp
next
  case (Cons e es)
  obtain kind msg where e: "e = (kind, msg)"
    by (cases e)
  from Cons.prems [of e] e have "clear_entry h e a = Inr (file_message kind msg a)"
    by (simp add: clear_entry_generic)
  moreover have "\<exists>a'. clear_loop h es (file_message kind msg a) = Inr a'"
    using Cons.prems by (intro Cons.IH) simp
  ultimately show ?case
    by simp
qed


lemma outgoing_receiver:
  "x \<in> set (outgoing m sends) \<Longrightarrow> \<exists>y\<in>set sends. fst x = fst (snd y)"
  by (force simp add: outgoing_def)

lemma arrivals_kind:
  "e \<in> set (addressed rcv (outgoing m sends)) \<Longrightarrow>
   \<exists>y\<in>set sends. fst (snd y) = rcv \<and> fst e = fst (snd (snd y))"
  by (force simp add: addressed_def outgoing_def)

lemma round_returns:
  assumes start: "\<forall>n b. ag n = Some b \<longrightarrow> name b = n \<and> out b = OutList [] \<and> inbox b = []"
    and a0: "ag rcv = Some a0"
    and names: "distinct names" "\<And>m. m \<in> set names \<Longrightarrow> ag m \<noteq> None"
    and registered: "\<And>x. x \<in> set sends \<Longrightarrow> ag (fst x) \<noteq> None \<and> ag (fst (snd x)) \<noteq> None"
    and generic: "\<And>x. x \<in> set sends \<Longrightarrow> fst (snd x) = rcv \<Longrightarrow> fst (snd (snd x)) \<notin> set reserved"
  shows "\<exists>xs. get_after_round h rnd rnd' sends names rcv tpc ag = Inr (xs, [])"
proof -
  have wf: "lists_only ag"
  proof (rule lists_onlyI)
    fix n b assume "ag n = Some b"
    with start show "name b = n \<and> (\<exists>es. out b = OutList es)"
      by blast
  qed
  have "ag (fst x) \<noteq> None" if "x \<in> set sends" for x
    using registered [OF that] by blast
  with wf have "\<exists>ag1. send_phase sends ag = Inr ag1"
    by (rule send_phase_returns)
  then obtain ag1 where sent: "send_phase sends ag = Inr ag1"
    by blast
  from wf sent have wf1: "lists_only ag1"
    by (rule send_phase_lists_only)
  have reg1: "ag1 m \<noteq> None" if "ag m \<noteq> None" for m
    using send_phase_outboxes [OF wf sent, of m] that by simp
  have out1: "outbox_of ag1 m = outgoing m sends" for m
  proof (cases "ag m")
    case None
    from send_phase_outboxes [OF wf sent, of m] None have "ag1 m = None"
      by simp
    with send_phase_senders [OF sent None] show ?thesis
      by (simp add: outbox_of_def)
  next
    case (Some b)
    with start have "out b = OutList []"
      by blast
    with send_phase_outboxes [OF wf sent, of m] Some show ?thesis
      by (simp add: outbox_of_def)
  qed
  have "deliverable ag1"
    unfolding deliverable_def
  proof (intro allI impI)
    fix m x assume "x \<in> set (outbox_of ag1 m)"
    then have "x \<in> set (outgoing m sends)"
      by (simp add: out1)
    from outgoing_receiver [OF this] obtain y where "y \<in> set sends" "fst x = fst (snd y)"
      by blast
    with registered [of y] have "ag (fst x) \<noteq> None"
      by simp
    then show "ag1 (fst x) \<noteq> None"
      by (rule reg1)
  qed
  moreover have "ag1 m \<noteq> None" if "m \<in> set names" for m
    using names(2) [OF that] by (rule reg1)
  ultimately have "\<exists>ag2. delivery_phase names ag1 = Inr ag2"
    using wf1 by (intro delivery_phase_returns)
  then obtain ag2 where delivered: "delivery_phase names ag1 = Inr ag2"
    by blast
  from start a0 have empty: "out a0 = OutList []" "inbox a0 = []"
    by blast+
  from send_phase_outboxes [OF wf sent, of rcv] a0 empty
  have a1: "ag1 rcv = Some (a0\<lparr>out := OutList (outgoing rcv sends)\<rparr>)"
    by simp
  from delivery_phase_inboxes [OF wf1 names(1) delivered, of rcv] a1
  obtain a2 where a2: "ag2 rcv = Some a2"
    and inbox2: "inbox a2 = concat (map (\<lambda>m. addressed rcv (outgoing m sends)) names)"
    using empty by (auto simp add: out1)
  have "fst e \<notin> set reserved" if "e \<in> set (inbox a2)" for e
  proof -
    from that inbox2 obtain m where "e \<in> set (addressed rcv (outgoing m sends))"
      by auto
    from arrivals_kind [OF this] obtain y where "y \<in> set sends" "fst (snd y) = rcv"
      "fst e = fst (snd (snd y))"
      by blast
    with generic [of y] show ?thesis
      by simp
  qed
  then have "\<exists>a'. clear_loop h (inbox a2) a2 = Inr a'"
    by (rule clear_loop_generic_returns)
  then obtain a3 where cleared: "do_message_clearing h a2 = Inr a3"
    by (auto simp add: do_message_clearing_def)
  from get_messages_queue [of rnd tpc a3] obtain a4 where
    got: "get_messages rnd tpc a3 = Inr (shuffle rnd (queue tpc a3), a4)"
    and gone: "map_of (msgs a4) tpc = None"
    by blast
  from gone have "get_messages rnd' tpc a4 = Inr ([], a4)"
    by (rule get_messages_unseen)
  with sent delivered a2 cleared got show ?thesis
    by (simp add: get_after_round_def)
qed

lemma two_agents_round:
  "get_after_round idle_helpers first_draw first_draw one_send both (''firm'', 0) ''m'' two_agents
     = Inr ([envelope_of ((''household'', 1), (''firm'', 0), ''m'', Str ''again''),
             hello (''household'', 1) (''firm'', 0)], [])"
  by (simp add: get_after_round_def one_send_def both_def two_agents_def unread_agent_def
        new_agent_def init_def send_def send_direct_def post_messages_def
        do_message_clearing_def clear_entry_def file_message_def get_messages_def
        dict_getitem_def shuffle_def first_draw_def hello_def envelope_of_def)


text \<open>
  C1, as the claim states it, fails. The claim: after the delivery and the clearing pass the
  first \<^verbatim>\<open>get_messages(T)\<close> returns exactly the messages sent under \<open>T\<close> in the round.
  A topic queue lasts until it is retrieved, it is not bound to a round. A firm that did
  not retrieve the \<^verbatim>\<open>hello\<close> of an earlier round and is sent one message, \<^verbatim>\<open>again\<close>,
  in this round gets both from its first call.
\<close>

theorem round_trip_leftover_counterexample:
  "get_after_round idle_helpers first_draw first_draw one_send both (''firm'', 0) ''m'' two_agents
     = Inr ([envelope_of ((''household'', 1), (''firm'', 0), ''m'', Str ''again''),
             hello (''household'', 1) (''firm'', 0)], []) \<and>
   sent_to (''firm'', 0) ''m'' one_send
     = [envelope_of ((''household'', 1), (''firm'', 0), ''m'', Str ''again'')] \<and>
   mset [envelope_of ((''household'', 1), (''firm'', 0), ''m'', Str ''again''),
         hello (''household'', 1) (''firm'', 0)]
     \<noteq> mset (sent_to (''firm'', 0) ''m'' one_send)"
proof -
  have "sent_to (''firm'', 0) ''m'' one_send
     = [envelope_of ((''household'', 1), (''firm'', 0), ''m'', Str ''again'')]"
    by (simp add: sent_to_def one_send_def)
  with two_agents_round show ?thesis
    by simp
qed

text \<open>
  C1, amended. A round starts with every inbox and outbox empty. When the sends, the
  delivery pass over all senders, the clearing pass of the receiver and its two calls of
  \<^verbatim>\<open>get_messages\<close> for a topic that is not reserved raise nothing, the first call
  returns, in some order, the messages that were queued under the topic before the round
  together with the messages sent to the receiver under the topic in the round, each as
  \<^verbatim>\<open>send\<close> built it; with nothing queued before, exactly the messages sent. The second
  call returns the empty list. By \<open>round_returns\<close> the hypothesis that nothing is raised
  holds whenever the agents involved are registered and the receiver is sent ordinary
  messages only.
\<close>

theorem round_trip:
  assumes generic: "tpc \<notin> set reserved"
    and start: "\<forall>n b. ag n = Some b \<longrightarrow> name b = n \<and> out b = OutList [] \<and> inbox b = []"
    and a0: "ag rcv = Some a0"
    and names: "distinct names" "fst ` set sends \<subseteq> set names"
    and run: "get_after_round h rnd rnd' sends names rcv tpc ag = Inr (xs, ys)"
  shows "mset xs = mset (queue tpc a0) + mset (sent_to rcv tpc sends) \<and> ys = []"
proof -
  from run obtain ag1 ag2 a2 a3 a4 a5 where
    sent: "send_phase sends ag = Inr ag1"
    and delivered: "delivery_phase names ag1 = Inr ag2"
    and a2: "ag2 rcv = Some a2"
    and cleared: "do_message_clearing h a2 = Inr a3"
    and got: "get_messages rnd tpc a3 = Inr (xs, a4)"
    and again: "get_messages rnd' tpc a4 = Inr (ys, a5)"
    by (auto simp add: get_after_round_def split: sum.splits option.splits prod.splits)
  have wf: "lists_only ag"
  proof (rule lists_onlyI)
    fix n b assume "ag n = Some b"
    with start show "name b = n \<and> (\<exists>es. out b = OutList es)"
      by blast
  qed
  from wf sent have wf1: "lists_only ag1"
    by (rule send_phase_lists_only)
  have out1: "outbox_of ag1 m = outgoing m sends" for m
  proof (cases "ag m")
    case None
    from send_phase_outboxes [OF wf sent, of m] None have "ag1 m = None"
      by simp
    with send_phase_senders [OF sent None] show ?thesis
      by (simp add: outbox_of_def)
  next
    case (Some b)
    with start have "out b = OutList []"
      by blast
    with send_phase_outboxes [OF wf sent, of m] Some show ?thesis
      by (simp add: outbox_of_def)
  qed
  from start a0 have empty: "out a0 = OutList []" "inbox a0 = []"
    by blast+
  from send_phase_outboxes [OF wf sent, of rcv] a0 empty
  have a1: "ag1 rcv = Some (a0\<lparr>out := OutList (outgoing rcv sends)\<rparr>)"
    by simp
  from delivery_phase_inboxes [OF wf1 names(1) delivered, of rcv] a1 a2
  have inbox2: "inbox a2 = concat (map (\<lambda>m. addressed rcv (outgoing m sends)) names)"
    and msgs2: "msgs a2 = msgs a0"
    using empty by (auto simp add: out1)
  from do_message_clearing_queue [OF generic cleared] inbox2 msgs2
  have q3: "queue tpc a3 = queue tpc a0 @ map snd (filter (\<lambda>e. fst e = tpc)
              (concat (map (\<lambda>m. addressed rcv (outgoing m sends)) names)))"
    by (simp add: queue_def)
  from get_messages_queue [of rnd tpc a3] got
  have xs: "xs = shuffle rnd (queue tpc a3)" and gone: "map_of (msgs a4) tpc = None"
    by auto
  from gone again have "ys = []"
    by (simp add: get_messages_unseen)
  moreover from xs q3 have "mset xs = mset (queue tpc a0) + mset (sent_to rcv tpc sends)"
    by (simp only: mset_shuffle mset_append arrivals_are_sent [OF names])
  ultimately show ?thesis
    by simp
qed

lemma fresh_agents_round:
  "get_after_round idle_helpers first_draw first_draw two_sends both (''firm'', 0) ''m'' fresh_agents
     = Inr ([hello (''household'', 1) (''firm'', 0), hello (''household'', 1) (''firm'', 0)], [])"
  by (simp add: get_after_round_def two_sends_def both_def fresh_agents_def
        new_agent_def init_def send_def send_direct_def post_messages_def
        do_message_clearing_def clear_entry_def file_message_def get_messages_def
        dict_getitem_def shuffle_def first_draw_def hello_def envelope_of_def)

lemma fresh_agents_start:
  "\<forall>n b. fresh_agents n = Some b \<longrightarrow> name b = n \<and> out b = OutList [] \<and> inbox b = []"
  by (auto simp add: fresh_agents_def new_agent_def init_def split: if_splits)

theorem round_trip_witness:
  "''m'' \<notin> set reserved \<and>
   fresh_agents (''firm'', 0) = Some (new_agent ''firm'' 0) \<and>
   distinct both \<and> fst ` set two_sends \<subseteq> set both \<and>
   get_after_round idle_helpers first_draw first_draw two_sends both (''firm'', 0) ''m'' fresh_agents
     = Inr ([hello (''household'', 1) (''firm'', 0), hello (''household'', 1) (''firm'', 0)], []) \<and>
   queue ''m'' (new_agent ''firm'' 0) = [] \<and>
   mset [hello (''household'', 1) (''firm'', 0), hello (''household'', 1) (''firm'', 0)]
     = mset (sent_to (''firm'', 0) ''m'' two_sends)"
proof -
  have generic: "''m'' \<notin> set reserved"
    by (simp add: reserved_def)
  have a0: "fresh_agents (''firm'', 0) = Some (new_agent ''firm'' 0)"
    by (simp add: fresh_agents_def)
  have names: "distinct both" "fst ` set two_sends \<subseteq> set both"
    by (simp_all add: both_def two_sends_def)
  have q: "queue ''m'' (new_agent ''firm'' 0) = []"
    by (simp add: queue_def new_agent_def init_def)
  from round_trip [OF generic fresh_agents_start a0 names fresh_agents_round] q
  have "mset [hello (''household'', 1) (''firm'', 0), hello (''household'', 1) (''firm'', 0)]
     = mset (sent_to (''firm'', 0) ''m'' two_sends)"
    by simp
  with generic a0 names fresh_agents_round q show ?thesis
    by simp
qed

end
